theory Spec2Isabelle
  imports Main "HOL-Library.Sublist"
begin

section \<open>JavaScript values, property access and thrown errors\<close>

text \<open>
  The request body and the values handed between the collaborators are JavaScript
  values. Strings are lists of code units; the model covers code units below 256.
  An object is an association list from property names to values, looked up from the
  front.
\<close>

datatype js_value =
    JUndefined
  | JNull
  | JBool bool
  | JNum int
  | JStr string
  | JArr "js_value list"
  | JObj "(string \<times> js_value) list"

text \<open>
  An \<open>Error\<close> object, with its \<open>name\<close> and its \<open>message\<close> (the empty string when
  \<open>new Error()\<close> was given none).
\<close>

datatype js_error = JsError (err_name: string) (err_message: string)

text \<open>
  What a \<open>throw\<close> or a rejected promise carries and a \<open>catch\<close> receives: an
  \<open>Error\<close> object or any other value, \<open>undefined\<close> and \<open>null\<close> included.
\<close>

datatype js_thrown = ErrorObject js_error | Value js_value

text \<open>
  \<open>v.key\<close>, for the property names the sources read (\<open>email\<close>, \<open>message\<close>):
  reading a property of \<open>undefined\<close> or \<open>null\<close> throws a TypeError.
\<close>

fun get_prop :: "js_value \<Rightarrow> string \<Rightarrow> js_thrown + js_value" where
  "get_prop JUndefined k =
     Inl (ErrorObject (JsError ''TypeError''
            (''Cannot read properties of undefined (reading '' @ [CHR 0x27] @ k @ [CHR 0x27] @ '')'')))"
| "get_prop JNull k =
     Inl (ErrorObject (JsError ''TypeError''
            (''Cannot read properties of null (reading '' @ [CHR 0x27] @ k @ [CHR 0x27] @ '')'')))"
| "get_prop (JObj kvs) k = Inr (case map_of kvs k of None \<Rightarrow> JUndefined | Some v \<Rightarrow> v)"
| "get_prop v k = Inr JUndefined"

text \<open>\<open>v?.key\<close>: optional chaining yields \<open>undefined\<close> on \<open>undefined\<close> and \<open>null\<close>.\<close>

fun opt_prop :: "js_value \<Rightarrow> string \<Rightarrow> js_value" where
  "opt_prop (JObj kvs) k = (case map_of kvs k of None \<Rightarrow> JUndefined | Some v \<Rightarrow> v)"
| "opt_prop v k = JUndefined"

text \<open>\<open>error.message\<close> of a caught value.\<close>

fun thrown_message :: "js_thrown \<Rightarrow> js_thrown + js_value" where
  "thrown_message (ErrorObject e) = Inr (JStr (err_message e))"
| "thrown_message (Value v) = get_prop v ''message''"

text \<open>The operand of \<open>||\<close>: a value is falsy or truthy.\<close>

fun js_truthy :: "js_value \<Rightarrow> bool" where
  "js_truthy JUndefined = False"
| "js_truthy JNull = False"
| "js_truthy (JBool b) = b"
| "js_truthy (JNum n) = (n \<noteq> 0)"
| "js_truthy (JStr s) = (s \<noteq> [])"
| "js_truthy (JArr xs) = True"
| "js_truthy (JObj kvs) = True"

text \<open>
  \<open>`${v}`\<close>: the conversion of a value to a string. It throws a TypeError on an
  object with an own \<open>toString\<close> property (a value of this model is never callable,
  and the inherited \<open>valueOf\<close> returns the object), and on an array that holds such
  an object, since \<open>join\<close> converts every element but \<open>undefined\<close> and \<open>null\<close>.
  Every other value converts, \<open>undefined\<close> and \<open>null\<close> included.
\<close>

fun stringifiable :: "js_value \<Rightarrow> bool" where
  "stringifiable (JObj kvs) = (map_of kvs ''toString'' = None)"
| "stringifiable (JArr xs) = list_all (\<lambda>x. x = JUndefined \<or> x = JNull \<or> stringifiable x) xs"
| "stringifiable v = True"

fun interpolates :: "js_thrown \<Rightarrow> bool" where
  "interpolates (ErrorObject e) = True"
| "interpolates (Value v) = stringifiable v"

section \<open>Response envelope (utilities/sendResponse.js, utilities/errorResponse.js)\<close>

record envelope =
  status :: nat
  message :: js_value
  route :: "string option"
  data :: "js_value option"

text \<open>
  Modelled from the spec: constant/httpStatus.constants.js is not among the sources;
  section 6 of the specification gives 201 for "Created" and 500 for "Internal Server
  Error".
\<close>

definition CREATED :: nat where
  "CREATED = 201"

definition INTERNAL_SERVER_ERROR :: nat where
  "INTERNAL_SERVER_ERROR = 500"

text \<open>
  Modelled from the spec: utilities/sendResponse.js is not among the sources; section
  4.7 describes the pure constructor \<open>success(data, message, status)\<close> and section 6
  the body \<open>{ status, message, route, data }\<close>, the route being added later by the
  controller.
\<close>

definition sendResponse :: "js_value \<Rightarrow> js_value \<Rightarrow> nat \<Rightarrow> envelope" where
  "sendResponse d m s = \<lparr>status = s, message = m, route = None, data = Some d\<rparr>"

text \<open>
  Modelled from the spec: utilities/errorResponse.js is not among the sources; section
  4.7 describes the pure constructor \<open>failure(message, status)\<close> and section 6 the body
  \<open>{ status, message, route }\<close>.
\<close>

definition errorResponse :: "js_value \<Rightarrow> nat \<Rightarrow> envelope" where
  "errorResponse m s = \<lparr>status = s, message = m, route = None, data = None\<rparr>"

section \<open>Send-email use case (sendEmail.service.js)\<close>

text \<open>
  The collaborators the use case imports and whose files are not among the sources:
  the content preparer, the renderer and the transport client. Each is a parameter
  that returns a value or throws.
\<close>

record deps =
  prepareEmailContent :: "js_value \<Rightarrow> js_value \<Rightarrow> js_thrown + js_value"
  prepareEmail :: "js_value \<Rightarrow> js_value \<Rightarrow> js_value \<Rightarrow> js_value \<Rightarrow> js_value \<Rightarrow> js_thrown + js_value"
  EmailService_sendEmail :: "js_value \<Rightarrow> js_value \<Rightarrow> js_value \<Rightarrow> js_thrown + js_value"

text \<open>
  What the process keeps across the call: the lines written by
  \<open>loggerService.error\<close>, each kept as the literal text of the template and the
  value interpolated after it, and the calls made to the transport client (recipient,
  subject, body), oldest first.
\<close>

record world =
  log :: "(string \<times> js_thrown) list"
  outbox :: "(js_value \<times> js_value \<times> js_value) list"

text \<open>
  \<open>const { pageTitle, ... } = x\<close>: destructuring \<open>undefined\<close> or \<open>null\<close> throws a
  TypeError, a missing property is \<open>undefined\<close>.
\<close>

definition destructure_content ::
  "js_value \<Rightarrow> js_thrown + (js_value \<times> js_value \<times> js_value \<times> js_value \<times> js_value)" where
  "destructure_content c =
     (if c = JUndefined then
        Inl (ErrorObject (JsError ''TypeError''
               (''Cannot destructure property '' @ [CHR 0x27] @ ''pageTitle'' @ [CHR 0x27] @ '' of ''
                @ [CHR 0x27] @ ''prepareEmailContent(...)'' @ [CHR 0x27] @ '' as it is undefined.'')))
      else if c = JNull then
        Inl (ErrorObject (JsError ''TypeError''
               (''Cannot destructure property '' @ [CHR 0x27] @ ''pageTitle'' @ [CHR 0x27] @ '' of ''
                @ [CHR 0x27] @ ''prepareEmailContent(...)'' @ [CHR 0x27] @ '' as it is null.'')))
      else Inr (opt_prop c ''pageTitle'', opt_prop c ''preheaderText'', opt_prop c ''heroSection'',
                opt_prop c ''mainSection'', opt_prop c ''footerContent''))"

text \<open>The body of the \<open>try\<close> block: the first throw ends it.\<close>

definition sendEmail_try :: "deps \<Rightarrow> js_value \<Rightarrow> world \<Rightarrow> (js_thrown + envelope) \<times> world" where
  "sendEmail_try d emailData w =
     (case prepareEmailContent d (opt_prop emailData ''subject'') emailData of
        Inl e \<Rightarrow> (Inl e, w)
      | Inr c \<Rightarrow>
        (case destructure_content c of
           Inl e \<Rightarrow> (Inl e, w)
         | Inr (pageTitle, preheaderText, heroSection, mainSection, footerContent) \<Rightarrow>
           (case get_prop emailData ''email'' of
              Inl e \<Rightarrow> (Inl e, w)
            | Inr to \<Rightarrow>
              (let subject = opt_prop emailData ''subject'' in
               case prepareEmail d pageTitle preheaderText heroSection mainSection footerContent of
                 Inl e \<Rightarrow> (Inl e, w)
               | Inr html \<Rightarrow>
                 (let w' = w\<lparr>outbox := outbox w @ [(to, subject, html)]\<rparr> in
                  case EmailService_sendEmail d to subject html of
                    Inl e \<Rightarrow> (Inl e, w')
                  | Inr sendEmailResult \<Rightarrow>
                    (Inr (sendResponse sendEmailResult (JStr ''Email send successfully.'') CREATED), w'))))))"

text \<open>
  The \<open>catch\<close> block, whose own throws leave the function: the caught value is
  interpolated into the log line (a TypeError when it does not convert), the line is
  logged, \<open>error.message\<close> is read (a TypeError on \<open>undefined\<close> and \<open>null\<close>), and
  the error envelope is built from it or from the fallback.
\<close>

definition sendEmail_catch :: "js_thrown \<Rightarrow> world \<Rightarrow> (js_thrown + envelope) \<times> world" where
  "sendEmail_catch error w =
     (if \<not> interpolates error then
        (Inl (ErrorObject (JsError ''TypeError'' ''Cannot convert object to primitive value'')), w)
      else
        (let w' = w\<lparr>log := log w @ [(''Failed to end email: '', error)]\<rparr> in
         case thrown_message error of
           Inl e \<Rightarrow> (Inl e, w')
         | Inr m \<Rightarrow>
             (Inr (errorResponse (if js_truthy m then m else JStr ''Failed to end email.'')
                     INTERNAL_SERVER_ERROR), w')))"

definition sendEmail :: "deps \<Rightarrow> js_value \<Rightarrow> world \<Rightarrow> (js_thrown + envelope) \<times> world" where
  "sendEmail d emailData w =
     (case sendEmail_try d emailData w of
        (Inr r, w') \<Rightarrow> (Inr r, w')
      | (Inl error, w') \<Rightarrow> sendEmail_catch error w')"

section \<open>Controller and routes (sendEmail.controller.js, sendEmail.routes.js)\<close>

record request =
  body :: js_value
  originalUrl :: string

record response =
  code :: nat
  sent :: envelope

text \<open>
  A handler of a route either sends the response, which ends the chain, or passes the
  request on; a rejection of the controller's promise goes to the error handler of
  the application.
\<close>

datatype outcome = Respond response | Next | Fault js_thrown

definition sendEmailController :: "deps \<Rightarrow> request \<Rightarrow> world \<Rightarrow> outcome \<times> world" where
  "sendEmailController d req w =
     (case sendEmail d (body req) w of
        (Inl e, w') \<Rightarrow> (Fault e, w')
      | (Inr emailData, w') \<Rightarrow>
        (let emailData' = emailData\<lparr>route := Some (originalUrl req)\<rparr> in
         (Respond \<lparr>code = status emailData', sent = emailData'\<rparr>, w')))"

section \<open>Regular expressions (the patterns of patterns.constants.js and validation.service.js)\<close>

text \<open>
  The two patterns of the sources are kept as terms of a datatype of regular expressions
  and run by one matcher. A character class lists single characters, ranges and
  \<open>\s\<close>.
\<close>

definition js_whitespace :: "char \<Rightarrow> bool" where
  "js_whitespace c = (c \<in> set [CHR 0x09, CHR 0x0A, CHR 0x0B, CHR 0x0C, CHR 0x0D, CHR 0x20, CHR 0xA0])"

definition line_terminator :: "char \<Rightarrow> bool" where
  "line_terminator c = (c = CHR 0x0A \<or> c = CHR 0x0D)"

definition in_range :: "char \<Rightarrow> char \<Rightarrow> char \<Rightarrow> bool" where
  "in_range a b c = ((of_char a :: nat) \<le> of_char c \<and> (of_char c :: nat) \<le> of_char b)"

text \<open>\<open>\w\<close>, which decides the word boundary \<open>\b\<close>.\<close>

definition word_char :: "char \<Rightarrow> bool" where
  "word_char c = (in_range CHR ''a'' CHR ''z'' c \<or> in_range CHR ''A'' CHR ''Z'' c
                  \<or> in_range CHR ''0'' CHR ''9'' c \<or> c = CHR ''_'')"

datatype citem = C char | R char char | S

fun citem_has :: "citem \<Rightarrow> char \<Rightarrow> bool" where
  "citem_has (C a) c = (c = a)"
| "citem_has (R a b) c = in_range a b c"
| "citem_has S c = js_whitespace c"

datatype rx =
    Eps
  | Dot
  | In "citem list"
  | NotIn "citem list"
  | Seq rx rx
  | Alt rx rx
  | Star rx
  | Bol
  | Eol
  | WordB
  | NegLook rx

text \<open>
  \<open>rx_span r s i j\<close>: the expression \<open>r\<close> matches the code units \<open>i..<j\<close> of the
  subject \<open>s\<close>. The assertions (\<open>^\<close>, \<open>$\<close>, \<open>\b\<close>, \<open>(?!r)\<close>) match an empty span and
  look at the whole subject. An iteration of \<open>*\<close> consumes at least one code unit.
\<close>

definition word_boundary :: "string \<Rightarrow> nat \<Rightarrow> bool" where
  "word_boundary s i =
     ((0 < i \<and> word_char (s ! (i - 1))) \<noteq> (i < length s \<and> word_char (s ! i)))"

function rx_span :: "rx \<Rightarrow> string \<Rightarrow> nat \<Rightarrow> nat \<Rightarrow> bool" where
  "rx_span Eps s i j = (i = j \<and> j \<le> length s)"
| "rx_span Dot s i j = (j = Suc i \<and> i < length s \<and> \<not> line_terminator (s ! i))"
| "rx_span (In cs) s i j = (j = Suc i \<and> i < length s \<and> list_ex (\<lambda>x. citem_has x (s ! i)) cs)"
| "rx_span (NotIn cs) s i j = (j = Suc i \<and> i < length s \<and> \<not> list_ex (\<lambda>x. citem_has x (s ! i)) cs)"
| "rx_span (Seq a b) s i j = list_ex (\<lambda>k. rx_span a s i k \<and> rx_span b s k j) [i..<Suc j]"
| "rx_span (Alt a b) s i j = (rx_span a s i j \<or> rx_span b s i j)"
| "rx_span (Star a) s i j =
     ((i = j \<and> j \<le> length s)
      \<or> list_ex (\<lambda>k. rx_span a s i k \<and> rx_span (Star a) s k j) [Suc i..<Suc j])"
| "rx_span Bol s i j = (i = j \<and> i = 0)"
| "rx_span Eol s i j = (i = j \<and> i = length s)"
| "rx_span WordB s i j = (i = j \<and> j \<le> length s \<and> word_boundary s i)"
| "rx_span (NegLook a) s i j =
     (i = j \<and> j \<le> length s \<and> \<not> list_ex (\<lambda>k. rx_span a s i k) [i..<Suc (length s)])"
  by pat_completeness auto
termination
  by (relation "inv_image (less_than <*lex*> less_than) (\<lambda>(r, s, i, j). (size r, j - i))") auto

declare rx_span.simps [simp del]

text \<open>\<open>regex.test(s)\<close> of a pattern without flags: a match may start anywhere.\<close>

definition rx_test :: "rx \<Rightarrow> string \<Rightarrow> bool" where
  "rx_test r s =
     list_ex (\<lambda>i. list_ex (\<lambda>j. rx_span r s i j) [i..<Suc (length s)]) [0..<Suc (length s)]"

text \<open>Derived forms: a literal string, \<open>r+\<close>, \<open>r{n}\<close>, \<open>r{0,n}\<close>, \<open>r{lo,hi}\<close>, \<open>r{n,}\<close>.\<close>

fun Lit :: "string \<Rightarrow> rx" where
  "Lit [] = Eps"
| "Lit [c] = In [C c]"
| "Lit (c # cs) = Seq (In [C c]) (Lit cs)"

definition Plus :: "rx \<Rightarrow> rx" where
  "Plus r = Seq r (Star r)"

fun Times :: "nat \<Rightarrow> rx \<Rightarrow> rx" where
  "Times 0 r = Eps"
| "Times (Suc n) r = Seq r (Times n r)"

fun Upto :: "nat \<Rightarrow> rx \<Rightarrow> rx" where
  "Upto 0 r = Eps"
| "Upto (Suc n) r = Alt (Seq r (Upto n r)) Eps"

definition Rep :: "nat \<Rightarrow> nat \<Rightarrow> rx \<Rightarrow> rx" where
  "Rep lo hi r = Seq (Times lo r) (Upto (hi - lo) r)"

definition AtLeast :: "nat \<Rightarrow> rx \<Rightarrow> rx" where
  "AtLeast n r = Seq (Times n r) (Star r)"

text \<open>
  validation.service.js, line 33:
  \<^verbatim>\<open>/^((?!tempmail|mailinator|yopmail).)*$/\<close>
\<close>

definition NO_TEMP_EMAIL :: rx where
  "NO_TEMP_EMAIL =
     Seq Bol
       (Seq (Star (Seq (NegLook (Alt (Lit ''tempmail'') (Alt (Lit ''mailinator'') (Lit ''yopmail'')))) Dot))
         Eol)"

text \<open>
  patterns.constants.js, line 27. The class \<^verbatim>\<open>[^<>()\[\]\\.,;:\s@"]\<close> of the local
  part, then the pattern
  \<^verbatim>\<open>/^(?!.*\btemp\b)((A+(\.A+)*)|(".+"))@((\[D{1,3}\.D{1,3}\.D{1,3}\.D{1,3}])|((L+\.)+T{2,}))$/\<close>
  with \<open>A\<close> that class, \<open>D = [0-9]\<close>, \<open>L = [a-zA-Z\-0-9]\<close> and \<open>T = [a-zA-Z]\<close>.
\<close>

definition atext :: rx where
  "atext = NotIn [C CHR ''<'', C CHR ''>'', C CHR ''('', C CHR '')'', C CHR ''['', C CHR '']'',
                  C CHR 0x5C, C CHR ''.'', C CHR '','', C CHR '';'', C CHR '':'', S, C CHR ''@'',
                  C CHR 0x22]"

definition digit :: rx where
  "digit = In [R CHR ''0'' CHR ''9'']"

definition label_char :: rx where
  "label_char = In [R CHR ''a'' CHR ''z'', R CHR ''A'' CHR ''Z'', C CHR ''-'', R CHR ''0'' CHR ''9'']"

definition tld_char :: rx where
  "tld_char = In [R CHR ''a'' CHR ''z'', R CHR ''A'' CHR ''Z'']"

definition temp_word :: rx where
  "temp_word = Seq (Star Dot) (Seq WordB (Seq (Lit ''temp'') WordB))"

definition local_part :: rx where
  "local_part =
     Alt (Seq (Plus atext) (Star (Seq (Lit ''.'') (Plus atext))))
         (Seq (Lit [CHR 0x22]) (Seq (Plus Dot) (Lit [CHR 0x22])))"

definition ip_literal :: rx where
  "ip_literal =
     Seq (Lit ''['')
       (Seq (Rep 1 3 digit) (Seq (Lit ''.'')
         (Seq (Rep 1 3 digit) (Seq (Lit ''.'')
           (Seq (Rep 1 3 digit) (Seq (Lit ''.'')
             (Seq (Rep 1 3 digit) (Lit '']''))))))))"

definition dns_name :: rx where
  "dns_name = Seq (Plus (Seq (Plus label_char) (Lit ''.''))) (AtLeast 2 tld_char)"

definition domain_part :: rx where
  "domain_part = Alt ip_literal dns_name"

definition EMAIL :: rx where
  "EMAIL =
     Seq Bol (Seq (NegLook temp_word)
       (Seq local_part (Seq (Lit ''@'') (Seq domain_part Eol))))"

section \<open>Schema validation (the Joi rules the sources chain)\<close>

text \<open>
  The schemas of the sources are built from the rules of the Joi library (version 17).
  The library is not part of the repository; what follows is its documented behaviour
  for the rules the sources chain: conversion first, then the checks of the type, then
  the rules in the order they were chained.

  The preferences of a validation: \<open>convert\<close> (on by default, switched off by
  \<open>.strict()\<close>) and \<open>abortEarly\<close> (stop at the first error, or collect them all).
  Unknown keys of an object are forbidden unless allowed, and the sources allow none.
\<close>

record prefs =
  convert :: bool
  abortEarly :: bool

datatype joi_code =
    AnyRequired
  | StringBase
  | StringEmpty
  | StringTrim
  | StringMin nat
  | StringMax nat
  | StringEmail
  | StringPatternName string
  | StringPatternBase
  | ObjectBase
  | ObjectUnknown string

text \<open>The error type under which \<open>.messages({...})\<close> looks a message up.\<close>

fun code_type :: "joi_code \<Rightarrow> string" where
  "code_type AnyRequired = ''any.required''"
| "code_type StringBase = ''string.base''"
| "code_type StringEmpty = ''string.empty''"
| "code_type StringTrim = ''string.trim''"
| "code_type (StringMin n) = ''string.min''"
| "code_type (StringMax n) = ''string.max''"
| "code_type StringEmail = ''string.email''"
| "code_type (StringPatternName n) = ''string.pattern.name''"
| "code_type StringPatternBase = ''string.pattern.base''"
| "code_type ObjectBase = ''object.base''"
| "code_type (ObjectUnknown k) = ''object.unknown''"

text \<open>
  The rules of a string schema, in the order they were chained. The address check
  behind \<open>.email(options)\<close> belongs to the library and is carried by the rule; a
  pattern carries its name when \<open>.regex(pattern, name)\<close> gave one.
\<close>

datatype rule =
    Trim
  | Min nat
  | Max nat
  | Email "string \<Rightarrow> bool"
  | Pattern rx "string option"

record string_schema =
  rules :: "rule list"
  required :: bool
  messages :: "(string \<times> string) list"

text \<open>\<open>String.prototype.trim\<close>.\<close>

definition js_trim :: "string \<Rightarrow> string" where
  "js_trim s = rev (dropWhile js_whitespace (rev (dropWhile js_whitespace s)))"

fun rule_check :: "rule \<Rightarrow> string \<Rightarrow> joi_code option" where
  "rule_check Trim s = (if s = js_trim s then None else Some StringTrim)"
| "rule_check (Min n) s = (if n \<le> length s then None else Some (StringMin n))"
| "rule_check (Max n) s = (if length s \<le> n then None else Some (StringMax n))"
| "rule_check (Email address) s = (if address s then None else Some StringEmail)"
| "rule_check (Pattern r name) s =
     (if rx_test r s then None
      else Some (case name of None \<Rightarrow> StringPatternBase | Some n \<Rightarrow> StringPatternName n))"

fun is_trim :: "rule \<Rightarrow> bool" where
  "is_trim Trim = True"
| "is_trim r = False"

fun is_min0 :: "rule \<Rightarrow> bool" where
  "is_min0 (Min n) = (n = 0)"
| "is_min0 r = False"

text \<open>
  The rules run in order. A converting rule (\<open>trim\<close>) is skipped when the value was
  converted; a failed rule ends the run under \<open>abortEarly\<close>.
\<close>

fun run_rules :: "prefs \<Rightarrow> rule list \<Rightarrow> string \<Rightarrow> joi_code list" where
  "run_rules p [] s = []"
| "run_rules p (r # rs) s =
     (if is_trim r \<and> convert p then run_rules p rs s
      else case rule_check r s of
             None \<Rightarrow> run_rules p rs s
           | Some e \<Rightarrow> (if abortEarly p then [e] else e # run_rules p rs s))"

text \<open>
  A string schema on a value: \<open>undefined\<close> passes unless the key is required; the
  value is trimmed when converting; anything but a string is \<open>string.base\<close>; the empty
  string is \<open>string.empty\<close> unless \<open>min(0)\<close> was chained; then the rules.
\<close>

definition validate_string :: "prefs \<Rightarrow> string_schema \<Rightarrow> js_value \<Rightarrow> joi_code list + js_value" where
  "validate_string p sch v =
     (case v of
        JUndefined \<Rightarrow> (if required sch then Inl [AnyRequired] else Inr JUndefined)
      | JStr s0 \<Rightarrow>
          (let s = (if convert p \<and> list_ex is_trim (rules sch) then js_trim s0 else s0) in
           if s = [] \<and> \<not> list_ex is_min0 (rules sch) then Inl [StringEmpty]
           else (case run_rules p (rules sch) s of
                   [] \<Rightarrow> Inr (JStr s)
                 | e # es \<Rightarrow> Inl (e # es)))
      | _ \<Rightarrow> Inl [StringBase])"

text \<open>The message an error of the schema is reported with, when the schema overrides it.\<close>

definition error_message :: "string_schema \<Rightarrow> joi_code \<Rightarrow> string option" where
  "error_message sch c = map_of (messages sch) (code_type c)"

text \<open>\<open>schema.messages(m)\<close>: the later override wins.\<close>

definition with_messages :: "(string \<times> string) list \<Rightarrow> string_schema \<Rightarrow> string_schema" where
  "with_messages m sch = sch\<lparr>messages := m @ messages sch\<rparr>"

record object_schema =
  keys :: "(string \<times> string_schema) list"
  strict :: bool

text \<open>
  Before its keys are validated an object is cloned: a new object with the same
  prototype receives the own properties by assignment. Assigning the key
  \<open>__proto__\<close> runs the setter of the prototype instead of creating a property: the
  clone has no own \<open>__proto__\<close>, and when the assigned value is an object the clone
  inherits the properties of that object.
\<close>

definition clone_own :: "(string \<times> js_value) list \<Rightarrow> (string \<times> js_value) list" where
  "clone_own obj = filter (\<lambda>(k, v). k \<noteq> ''__proto__'') obj"

definition clone_inherited :: "(string \<times> js_value) list \<Rightarrow> (string \<times> js_value) list" where
  "clone_inherited obj = (case map_of obj ''__proto__'' of Some (JObj kvs) \<Rightarrow> kvs | _ \<Rightarrow> [])"

text \<open>
  The declared keys are validated in order on \<open>value[key]\<close>, an own property of the
  clone or else an inherited one, each error under its key; the values that passed are
  returned as validated.
\<close>

fun validate_keys ::
  "prefs \<Rightarrow> (string \<times> string_schema) list \<Rightarrow> (string \<times> js_value) list
   \<Rightarrow> (string \<times> joi_code) list \<times> (string \<times> js_value) list" where
  "validate_keys p [] obj = ([], [])"
| "validate_keys p ((k, sch) # ks) obj =
     (case validate_string p sch (opt_prop (JObj obj) k) of
        Inl es \<Rightarrow>
          (if abortEarly p then (map (Pair k) es, [])
           else (let (es', vs) = validate_keys p ks obj in (map (Pair k) es @ es', vs)))
      | Inr v \<Rightarrow> (let (es', vs) = validate_keys p ks obj in (es', (k, v) # vs)))"

text \<open>\<open>Object.keys\<close> of the clone that the schema does not declare.\<close>

definition unknown_keys :: "object_schema \<Rightarrow> (string \<times> js_value) list \<Rightarrow> string list" where
  "unknown_keys sch own = filter (\<lambda>k. k \<notin> set (map fst (keys sch))) (remdups (map fst own))"

text \<open>\<open>value[key] = v\<close> on the clone: an own property is replaced, a new one is added last.\<close>

definition set_prop :: "string \<Rightarrow> js_value \<Rightarrow> (string \<times> js_value) list \<Rightarrow> (string \<times> js_value) list" where
  "set_prop k v own =
     (if k \<in> set (map fst own) then map (\<lambda>(k', x). if k' = k then (k', v) else (k', x)) own
      else own @ [(k, v)])"

text \<open>
  An object schema on a value: \<open>undefined\<close> passes; anything but an object is
  \<open>object.base\<close>; the object is cloned, its declared keys are validated under the
  preferences of the schema, and every other own key of the clone is
  \<open>object.unknown\<close>. The validated values other than \<open>undefined\<close> are assigned to
  the clone, whose own properties are returned.
\<close>

definition validate_object ::
  "prefs \<Rightarrow> object_schema \<Rightarrow> js_value \<Rightarrow> (string \<times> joi_code) list + js_value" where
  "validate_object p0 sch v =
     (case v of
        JUndefined \<Rightarrow> Inr JUndefined
      | JObj obj \<Rightarrow>
          (let p = (if strict sch then p0\<lparr>convert := False\<rparr> else p0);
               own = clone_own obj;
               (es, vs) = validate_keys p (keys sch) (own @ clone_inherited obj);
               us = map (\<lambda>k. (k, ObjectUnknown k)) (unknown_keys sch own)
           in if abortEarly p \<and> es \<noteq> [] then Inl es
              else if abortEarly p \<and> us \<noteq> [] then Inl (take 1 us)
              else if es @ us \<noteq> [] then Inl (es @ us)
              else Inr (JObj (foldl (\<lambda>acc (k, x). if x = JUndefined then acc else set_prop k x acc) own vs)))
      | _ \<Rightarrow> Inl [([], ObjectBase)])"

text \<open>\<open>schema.fork(keys, adjuster)\<close>: the adjuster applied to the named keys.\<close>

definition fork ::
  "string list \<Rightarrow> (string_schema \<Rightarrow> string_schema) \<Rightarrow> object_schema \<Rightarrow> object_schema" where
  "fork ks f sch = sch\<lparr>keys := map (\<lambda>(k, s). (k, if k \<in> set ks then f s else s)) (keys sch)\<rparr>"

section \<open>Field validators (validation.service.js) and the request schema (sendEmail.schema.js)\<close>

text \<open>
  What the validators import from files that are not among the sources: the length
  bounds of constant/constants.js and sendEmail.constants.js, the messages of
  shared/customValidationMessage.js, and the address check the library runs for
  \<open>.email({ minDomainSegments: 2, tlds: { allow: true } })\<close>.
\<close>

record settings =
  EMAIL_MIN :: nat
  EMAIL_MAX :: nat
  SUBJECT_MIN :: nat
  SUBJECT_MAX :: nat
  customValidationMessage :: "(string \<times> string) list"
  isEmailValid :: "string \<Rightarrow> bool"

definition createStringField :: "settings \<Rightarrow> nat \<Rightarrow> nat \<Rightarrow> string_schema" where
  "createStringField cfg lo hi =
     with_messages (customValidationMessage cfg)
       \<lparr>rules = [Trim, Min lo, Max hi], required = False, messages = []\<rparr>"

definition emailField :: "settings \<Rightarrow> string_schema" where
  "emailField cfg =
     with_messages
       [(''string.pattern.name'', [CHR 0x22] @ ''email'' @ [CHR 0x22] @ '' must not be a temporary email address''),
        (''string.regex.no-temp-email'',
           [CHR 0x22] @ ''email'' @ [CHR 0x22] @ '' must not be from a temporary email provider (like tempmail, mailinator, or yopmail)''),
        (''string.pattern.base'', ''Please fill a valid email address.'')]
       ((createStringField cfg (EMAIL_MIN cfg) (EMAIL_MAX cfg))
          \<lparr>rules := rules (createStringField cfg (EMAIL_MIN cfg) (EMAIL_MAX cfg))
                     @ [Email (isEmailValid cfg),
                        Pattern NO_TEMP_EMAIL (Some ''no-temp-email''),
                        Pattern EMAIL None]\<rparr>)"

definition subjectField :: "settings \<Rightarrow> string_schema" where
  "subjectField cfg =
     with_messages
       [(''string.pattern.base'',
           ''{#label} with value '' @ [CHR 0x22] @ ''{#value}'' @ [CHR 0x22] @ '' must start with an uppercase letter followed by lowercase letters for each word, separated by a single space if multiple words. No numbers or special characters are allowed.'')]
       (createStringField cfg (SUBJECT_MIN cfg) (SUBJECT_MAX cfg))"

definition sendEmailSchemaBase :: "settings \<Rightarrow> object_schema" where
  "sendEmailSchemaBase cfg =
     \<lparr>keys = [(''subject'', subjectField cfg), (''email'', emailField cfg)], strict = True\<rparr>"

definition sendEmailSchema :: "settings \<Rightarrow> object_schema" where
  "sendEmailSchema cfg =
     fork [''subject'', ''email''] (\<lambda>field. field\<lparr>required := True\<rparr>) (sendEmailSchemaBase cfg)"

text \<open>
  The shape the message of the subject field describes: words of an uppercase letter
  followed by lowercase letters, separated by single spaces. The schema chains no
  pattern rule for it.
\<close>

fun capitalized_words :: "string \<Rightarrow> bool" and capitalized_rest :: "string \<Rightarrow> bool" where
  "capitalized_words [] = False"
| "capitalized_words (c # cs) = (in_range CHR ''A'' CHR ''Z'' c \<and> capitalized_rest cs)"
| "capitalized_rest [] = True"
| "capitalized_rest (c # cs) =
     (if in_range CHR ''a'' CHR ''z'' c then capitalized_rest cs
      else c = CHR '' '' \<and> capitalized_words cs)"

section \<open>The route (sendEmail.routes.js)\<close>




section \<open>Notions the properties are stated with\<close>

text \<open>The characters an expression can consume.\<close>

fun rx_consumes :: "rx \<Rightarrow> char \<Rightarrow> bool" where
  "rx_consumes Eps c = False"
| "rx_consumes Dot c = (\<not> line_terminator c)"
| "rx_consumes (In cs) c = list_ex (\<lambda>x. citem_has x c) cs"
| "rx_consumes (NotIn cs) c = (\<not> list_ex (\<lambda>x. citem_has x c) cs)"
| "rx_consumes (Seq a b) c = (rx_consumes a c \<or> rx_consumes b c)"
| "rx_consumes (Alt a b) c = (rx_consumes a c \<or> rx_consumes b c)"
| "rx_consumes (Star a) c = rx_consumes a c"
| "rx_consumes Bol c = False"
| "rx_consumes Eol c = False"
| "rx_consumes WordB c = False"
| "rx_consumes (NegLook a) c = False"

text \<open>
  The whole word \<open>temp\<close> at index \<open>i\<close>: the four letters, with no word character
  before or after them.
\<close>

definition temp_word_at :: "string \<Rightarrow> nat \<Rightarrow> bool" where
  "temp_word_at s i =
     (take 4 (drop i s) = ''temp''
      \<and> \<not> (0 < i \<and> word_char (s ! (i - 1)))
      \<and> \<not> (i + 4 < length s \<and> word_char (s ! (i + 4))))"

definition contains_temp_word :: "string \<Rightarrow> bool" where
  "contains_temp_word s = list_ex (temp_word_at s) [0..<length s]"



text \<open>The domain of an address: what follows its last \<open>@\<close>.\<close>

definition domain_of :: "string \<Rightarrow> string" where
  "domain_of s = rev (takeWhile (\<lambda>c. c \<noteq> CHR ''@'') (rev s))"

section \<open>Stand-ins to run the model on\<close>

text \<open>
  Collaborators to evaluate the use case with: a content preparer and a renderer that
  return fixed values, a transport client that accepts every message, one that
  refuses every message with an error, and one whose promise rejects with
  \<open>undefined\<close>.
\<close>

definition stub_content :: js_value where
  "stub_content =
     JObj [(''pageTitle'', JStr ''t''), (''preheaderText'', JStr ''p''), (''heroSection'', JStr ''h''),
           (''mainSection'', JStr ''m''), (''footerContent'', JStr ''f'')]"

definition stub_ok :: deps where
  "stub_ok =
     \<lparr>prepareEmailContent = (\<lambda>subject emailData. Inr stub_content),
      prepareEmail = (\<lambda>a b c d e. Inr (JStr ''<html></html>'')),
      EmailService_sendEmail = (\<lambda>to subject html. Inr (JObj [(''accepted'', JArr [to])]))\<rparr>"

definition stub_refused :: deps where
  "stub_refused =
     stub_ok\<lparr>EmailService_sendEmail :=
               (\<lambda>to subject html. Inl (ErrorObject (JsError ''Error'' ''connection refused'')))\<rparr>"

definition stub_rejects_undefined :: deps where
  "stub_rejects_undefined =
     stub_ok\<lparr>EmailService_sendEmail := (\<lambda>to subject html. Inl (Value JUndefined))\<rparr>"

definition world0 :: world where
  "world0 = \<lparr>log = [], outbox = []\<rparr>"

definition weekly :: js_value where
  "weekly = JObj [(''subject'', JStr ''Weekly Update''), (''email'', JStr ''user@example.com'')]"


text \<open>
  Settings to evaluate the validators with: bounds for the two fields, no message
  overrides, and an address check that asks for an \<open>@\<close>.
\<close>

definition stub_settings :: settings where
  "stub_settings =
     \<lparr>EMAIL_MIN = 3, EMAIL_MAX = 100, SUBJECT_MIN = 3, SUBJECT_MAX = 100,
      customValidationMessage = [],
      isEmailValid = list_ex (\<lambda>c. c = CHR ''@'')\<rparr>"

text \<open>
  Preferences that collect every error: converting, as a schema run on its own does,
  and strict, as the keys of the request schema are run.
\<close>

definition collect_all :: prefs where
  "collect_all = \<lparr>convert = True, abortEarly = False\<rparr>"

definition strict_collect :: prefs where
  "strict_collect = \<lparr>convert = False, abortEarly = False\<rparr>"

text \<open>The preferences of the library when none are given.\<close>

definition joi_defaults :: prefs where
  "joi_defaults = \<lparr>convert = True, abortEarly = True\<rparr>"

section \<open>The use case answers with an envelope\<close>







text \<open>
  What the hypothesis of the next theorem excludes: when the promise of the transport
  rejects with \<open>undefined\<close>, the line is logged, reading \<open>error.message\<close> throws, and
  the use case itself rejects.
\<close>

lemma sendEmail_rejects_on_undefined:
  "sendEmail stub_rejects_undefined weekly world0 =
     (Inl (ErrorObject (JsError ''TypeError''
             (''Cannot read properties of undefined (reading '' @ [CHR 0x27] @ ''message'' @ [CHR 0x27] @ '')''))),
      \<lparr>log = [(''Failed to end email: '', Value JUndefined)],
       outbox = [(JStr ''user@example.com'', JStr ''Weekly Update'', JStr ''<html></html>'')]\<rparr>)"
  by (simp add: sendEmail_def sendEmail_try_def sendEmail_catch_def stub_rejects_undefined_def
      stub_ok_def stub_content_def destructure_content_def weekly_def world0_def)



section \<open>Success and failure of the transport\<close>

text \<open>
  C2. When the steps before the transport return and the transport client's
  \<open>sendEmail\<close>, called with the recipient, the subject and the rendered body, returns
  a delivery result \<open>r\<close>, the use case returns the envelope with status 201, the
  message "Email send successfully." and \<open>r\<close> as its data; the call is in the outbox.
\<close>

theorem sendEmail_transport_success:
  assumes "prepareEmailContent d (opt_prop emailData ''subject'') emailData = Inr c"
    and "destructure_content c = Inr (pageTitle, preheaderText, heroSection, mainSection, footerContent)"
    and "get_prop emailData ''email'' = Inr to"
    and "prepareEmail d pageTitle preheaderText heroSection mainSection footerContent = Inr html"
    and "EmailService_sendEmail d to (opt_prop emailData ''subject'') html = Inr r"
  shows "sendEmail d emailData w =
     (Inr \<lparr>status = 201, message = JStr ''Email send successfully.'', route = None, data = Some r\<rparr>,
      w\<lparr>outbox := outbox w @ [(to, opt_prop emailData ''subject'', html)]\<rparr>)"
  using assms
  by (simp add: sendEmail_def sendEmail_try_def sendResponse_def CREATED_def)

theorem sendEmail_transport_success_witness:
  "sendEmail stub_ok weekly world0 =
     (Inr \<lparr>status = 201, message = JStr ''Email send successfully.'', route = None,
           data = Some (JObj [(''accepted'', JArr [JStr ''user@example.com''])])\<rparr>,
      world0\<lparr>outbox := outbox world0
                 @ [(JStr ''user@example.com'', opt_prop weekly ''subject'', JStr ''<html></html>'')]\<rparr>)"
  by (rule sendEmail_transport_success [where c = stub_content and pageTitle = "JStr ''t''"
        and preheaderText = "JStr ''p''" and heroSection = "JStr ''h''" and mainSection = "JStr ''m''"
        and footerContent = "JStr ''f''"])
     (simp_all add: stub_ok_def stub_content_def destructure_content_def weekly_def)

text \<open>
  C3. When the steps before the transport return and the transport client's
  \<open>sendEmail\<close> throws the error \<open>error\<close>, the use case returns the envelope with
  status 500 whose message is \<open>error.message\<close> when that is not empty and "Failed to
  end email." otherwise. The witness is the transport that refuses with "connection
  refused".
\<close>

theorem sendEmail_transport_failure:
  assumes "prepareEmailContent d (opt_prop emailData ''subject'') emailData = Inr c"
    and "destructure_content c = Inr (pageTitle, preheaderText, heroSection, mainSection, footerContent)"
    and "get_prop emailData ''email'' = Inr to"
    and "prepareEmail d pageTitle preheaderText heroSection mainSection footerContent = Inr html"
    and "EmailService_sendEmail d to (opt_prop emailData ''subject'') html = Inl (ErrorObject error)"
  shows "fst (sendEmail d emailData w) =
     Inr \<lparr>status = 500,
          message = JStr (if err_message error \<noteq> [] then err_message error else ''Failed to end email.''),
          route = None, data = None\<rparr>"
  using assms
  by (simp add: sendEmail_def sendEmail_try_def sendEmail_catch_def errorResponse_def
      INTERNAL_SERVER_ERROR_def Let_def)

theorem sendEmail_transport_failure_witness:
  "fst (sendEmail stub_refused weekly world0) =
     Inr \<lparr>status = 500, message = JStr ''connection refused'', route = None, data = None\<rparr>"
  using sendEmail_transport_failure [of stub_refused weekly stub_content "JStr ''t''" "JStr ''p''"
      "JStr ''h''" "JStr ''m''" "JStr ''f''" "JStr ''user@example.com''" "JStr ''<html></html>''"
      "JsError ''Error'' ''connection refused''" world0]
  by (simp add: stub_refused_def stub_ok_def stub_content_def destructure_content_def weekly_def)

section \<open>Matching: spans, literals, iteration\<close>

lemma rx_span_base [simp]:
  "rx_span Eps s i j \<longleftrightarrow> i = j \<and> j \<le> length s"
  "rx_span Dot s i j \<longleftrightarrow> j = Suc i \<and> i < length s \<and> \<not> line_terminator (s ! i)"
  "rx_span (In cs) s i j \<longleftrightarrow> j = Suc i \<and> i < length s \<and> (\<exists>x\<in>set cs. citem_has x (s ! i))"
  "rx_span (NotIn cs) s i j \<longleftrightarrow> j = Suc i \<and> i < length s \<and> \<not> (\<exists>x\<in>set cs. citem_has x (s ! i))"
  "rx_span (Alt a b) s i j \<longleftrightarrow> rx_span a s i j \<or> rx_span b s i j"
  "rx_span Bol s i j \<longleftrightarrow> i = j \<and> i = 0"
  "rx_span Eol s i j \<longleftrightarrow> i = j \<and> i = length s"
  "rx_span WordB s i j \<longleftrightarrow> i = j \<and> j \<le> length s \<and> word_boundary s i"
  by (simp_all add: rx_span.simps list_ex_iff)

lemma list_ex_upt_Suc: "list_ex P [a..<Suc b] \<longleftrightarrow> (\<exists>k. a \<le> k \<and> k \<le> b \<and> P k)"
  by (simp only: list_ex_iff set_upt atLeastLessThan_iff Bex_def less_Suc_eq_le conj_assoc)

lemma rx_span_Seq:
  "rx_span (Seq a b) s i j \<longleftrightarrow> (\<exists>k. i \<le> k \<and> k \<le> j \<and> rx_span a s i k \<and> rx_span b s k j)"
  by (simp only: rx_span.simps list_ex_upt_Suc)

lemma rx_span_Star:
  "rx_span (Star a) s i j \<longleftrightarrow>
     (i = j \<and> j \<le> length s) \<or> (\<exists>k. i < k \<and> k \<le> j \<and> rx_span a s i k \<and> rx_span (Star a) s k j)"
  by (subst rx_span.simps) (simp only: list_ex_upt_Suc Suc_le_eq)

lemma rx_span_NegLook:
  "rx_span (NegLook a) s i j \<longleftrightarrow>
     (i = j \<and> j \<le> length s \<and> \<not> (\<exists>k. i \<le> k \<and> k \<le> length s \<and> rx_span a s i k))"
  by (simp only: rx_span.simps list_ex_upt_Suc)

lemma rx_span_bounds: "rx_span r s i j \<Longrightarrow> i \<le> j \<and> j \<le> length s"
proof (induction r s i j rule: rx_span.induct)
  case (5 a b s i j)
  from "5.prems" obtain k where k: "i \<le> k" "k \<le> j" "rx_span a s i k" "rx_span b s k j"
    by (auto simp: rx_span_Seq)
  from k have "k \<in> set [i..<Suc j]" by (simp del: upt_Suc)
  from "5.IH"(2) [OF this k(4)] k show ?case by simp
next
  case (7 a s i j)
  from "7.prems" consider "i = j \<and> j \<le> length s"
    | k where "i < k" "k \<le> j" "rx_span a s i k" "rx_span (Star a) s k j"
    using rx_span_Star [of a s i j] by blast
  then show ?case
  proof cases
    case 1
    then show ?thesis by simp
  next
    case 2
    from 2 have "k \<in> set [Suc i..<Suc j]" by (simp del: upt_Suc)
    from "7.IH"(2) [OF this 2(4)] 2 show ?thesis by simp
  qed
next
  case (11 a s i j)
  then show ?case by (simp add: rx_span_NegLook)
qed auto

lemma take_drop_single: "take (Suc 0) (drop i s) = [c] \<longleftrightarrow> i < length s \<and> s ! i = c"
  by (cases "i < length s") (auto simp: take_Suc hd_drop_conv_nth)

lemma rx_span_Lit:
  "rx_span (Lit t) s i j \<longleftrightarrow> (j = i + length t \<and> j \<le> length s \<and> take (length t) (drop i s) = t)"
proof (induction t arbitrary: i rule: Lit.induct)
  case 1
  then show ?case by auto
next
  case (2 c)
  then show ?case using take_drop_single [of i s c] by auto
next
  case (3 c v va)
  have "rx_span (Lit (c # v # va)) s i j \<longleftrightarrow>
        (i < length s \<and> s ! i = c \<and> rx_span (Lit (v # va)) s (Suc i) j)"
    using rx_span_bounds [of "Lit (v # va)" s "Suc i" j] by (auto simp: rx_span_Seq)
  also have "\<dots> \<longleftrightarrow> (i < length s \<and> s ! i = c \<and> j = Suc i + length (v # va) \<and> j \<le> length s
        \<and> take (length (v # va)) (drop (Suc i) s) = v # va)"
    using 3 by simp
  also have "\<dots> \<longleftrightarrow> (j = i + length (c # v # va) \<and> j \<le> length s
        \<and> take (length (c # v # va)) (drop i s) = c # v # va)"
  proof (cases "i < length s")
    case True
    then have "drop i s = s ! i # drop (Suc i) s" by (simp add: Cons_nth_drop_Suc)
    then show ?thesis using True by auto
  next
    case False
    then show ?thesis by simp
  qed
  finally show ?case .
qed

lemma rx_span_Star_unit:
  assumes unit: "\<And>i k. rx_span r s i k \<Longrightarrow> k = Suc i"
  shows "rx_span (Star r) s i j \<longleftrightarrow>
           (i \<le> j \<and> j \<le> length s \<and> (\<forall>p. i \<le> p \<and> p < j \<longrightarrow> rx_span r s p (Suc p)))"
proof (induction "j - i" arbitrary: i)
  case 0
  then show ?case using rx_span_Star [of r s i j] by auto
next
  case (Suc n)
  then have lt: "i < j" and n: "n = j - Suc i" by simp_all
  have "rx_span (Star r) s i j \<longleftrightarrow> (rx_span r s i (Suc i) \<and> rx_span (Star r) s (Suc i) j)"
  proof
    assume "rx_span (Star r) s i j"
    with lt obtain k where k: "i < k" "k \<le> j" "rx_span r s i k" "rx_span (Star r) s k j"
      using rx_span_Star [of r s i j] by auto
    from unit [OF k(3)] k show "rx_span r s i (Suc i) \<and> rx_span (Star r) s (Suc i) j" by simp
  next
    assume "rx_span r s i (Suc i) \<and> rx_span (Star r) s (Suc i) j"
    with lt have "\<exists>k. i < k \<and> k \<le> j \<and> rx_span r s i k \<and> rx_span (Star r) s k j"
      by (intro exI [of _ "Suc i"]) simp
    then show "rx_span (Star r) s i j" using rx_span_Star [of r s i j] by blast
  qed
  also have "\<dots> \<longleftrightarrow> (rx_span r s i (Suc i) \<and> Suc i \<le> j \<and> j \<le> length s
      \<and> (\<forall>p. Suc i \<le> p \<and> p < j \<longrightarrow> rx_span r s p (Suc p)))"
    using Suc.hyps(1) [OF n] by simp
  also have "\<dots> \<longleftrightarrow> (i \<le> j \<and> j \<le> length s \<and> (\<forall>p. i \<le> p \<and> p < j \<longrightarrow> rx_span r s p (Suc p)))"
  proof -
    have split: "i \<le> p \<longleftrightarrow> p = i \<or> Suc i \<le> p" for p by auto
    show ?thesis using lt by (auto simp: split)
  qed
  finally show ?case .
qed

lemma rx_span_consumes:
  "rx_span r s i j \<Longrightarrow> i \<le> p \<Longrightarrow> p < j \<Longrightarrow> rx_consumes r (s ! p)"
proof (induction r s i j arbitrary: p rule: rx_span.induct)
  case (5 a b s i j)
  from "5.prems"(1) obtain k where k: "i \<le> k" "k \<le> j" "rx_span a s i k" "rx_span b s k j"
    by (auto simp: rx_span_Seq)
  from k have mem: "k \<in> set [i..<Suc j]" by (simp del: upt_Suc)
  show ?case
  proof (cases "p < k")
    case True
    from "5.IH"(1) [OF mem k(3) "5.prems"(2) True] show ?thesis by simp
  next
    case False
    then have "k \<le> p" by simp
    from "5.IH"(2) [OF mem k(4) this "5.prems"(3)] show ?thesis by simp
  qed
next
  case (7 a s i j)
  from "7.prems" obtain k where k: "i < k" "k \<le> j" "rx_span a s i k" "rx_span (Star a) s k j"
    using rx_span_Star [of a s i j] by auto
  from k have mem: "k \<in> set [Suc i..<Suc j]" by (simp del: upt_Suc)
  show ?case
  proof (cases "p < k")
    case True
    from "7.IH"(1) [OF mem k(3) "7.prems"(2) True] show ?thesis by simp
  next
    case False
    then have "k \<le> p" by simp
    from "7.IH"(2) [OF mem k(4) this "7.prems"(3)] show ?thesis by simp
  qed
next
  case (11 a s i j)
  then show ?case by (simp add: rx_span_NegLook)
qed (auto simp: list_ex_iff less_Suc_eq)

lemma rx_test_iff: "rx_test r s \<longleftrightarrow> (\<exists>i j. rx_span r s i j)"
proof
  assume "rx_test r s"
  then show "\<exists>i j. rx_span r s i j"
    by (auto simp: rx_test_def list_ex_iff)
next
  assume "\<exists>i j. rx_span r s i j"
  then obtain i j where ij: "rx_span r s i j" by blast
  with rx_span_bounds [OF ij]
  have "\<exists>k. 0 \<le> k \<and> k \<le> length s \<and> (\<exists>ka. k \<le> ka \<and> ka \<le> length s \<and> rx_span r s k ka)"
    by (intro exI [of _ i] conjI exI [of _ j]) simp_all
  then show "rx_test r s"
    unfolding rx_test_def list_ex_upt_Suc .
qed

lemma sublist_at:
  assumes "sublist t s"
  shows "\<exists>i. i + length t \<le> length s \<and> take (length t) (drop i s) = t"
proof -
  from assms obtain ps ss where "s = ps @ t @ ss" by (auto simp: sublist_def)
  then have "length ps + length t \<le> length s \<and> take (length t) (drop (length ps) s) = t" by simp
  then show ?thesis by blast
qed

lemma no_temp_unit:
  "rx_span (Seq (NegLook a) Dot) s i k \<longleftrightarrow>
     (k = Suc i \<and> i < length s \<and> \<not> line_terminator (s ! i)
      \<and> \<not> (\<exists>m. i \<le> m \<and> m \<le> length s \<and> rx_span a s i m))"
  by (auto simp: rx_span_Seq rx_span_NegLook)

lemma NO_TEMP_EMAIL_iff:
  "rx_test NO_TEMP_EMAIL s \<longleftrightarrow>
     (\<forall>p<length s. \<not> line_terminator (s ! p)
        \<and> \<not> (\<exists>m. rx_span (Alt (Lit ''tempmail'') (Alt (Lit ''mailinator'') (Lit ''yopmail''))) s p m))"
proof -
  let ?A = "Alt (Lit ''tempmail'') (Alt (Lit ''mailinator'') (Lit ''yopmail''))"
  let ?X = "Seq (NegLook ?A) Dot"
  have unit: "\<And>i k. rx_span ?X s i k \<Longrightarrow> k = Suc i" by (simp add: no_temp_unit)
  have "rx_test NO_TEMP_EMAIL s \<longleftrightarrow> rx_span (Star ?X) s 0 (length s)"
    using rx_span_bounds [of "Star ?X" s 0]
    by (auto simp: rx_test_iff NO_TEMP_EMAIL_def rx_span_Seq)
  also have "\<dots> \<longleftrightarrow> (\<forall>p. p < length s \<longrightarrow> rx_span ?X s p (Suc p))"
    using rx_span_Star_unit [of ?X s 0 "length s", OF unit] by simp
  also have "\<dots> \<longleftrightarrow> (\<forall>p<length s. \<not> line_terminator (s ! p) \<and> \<not> (\<exists>m. rx_span ?A s p m))"
    using rx_span_bounds [of ?A s] unfolding no_temp_unit by blast
  finally show ?thesis .
qed

lemma NO_TEMP_EMAIL_rejects:
  assumes "sublist t s" and "t = ''tempmail'' \<or> t = ''mailinator'' \<or> t = ''yopmail''"
  shows "\<not> rx_test NO_TEMP_EMAIL s"
proof
  assume m: "rx_test NO_TEMP_EMAIL s"
  from sublist_at [OF assms(1)] obtain i where i: "i + length t \<le> length s"
    "take (length t) (drop i s) = t" by blast
  from assms(2) have "0 < length t" by auto
  with i(1) have "i < length s" by linarith
  with m have no: "\<not> rx_span (Alt (Lit ''tempmail'') (Alt (Lit ''mailinator'') (Lit ''yopmail''))) s i (i + length t)"
    unfolding NO_TEMP_EMAIL_iff by blast
  from i have "rx_span (Lit t) s i (i + length t)" by (simp add: rx_span_Lit)
  with assms(2) no show False by auto
qed

section \<open>The address pattern\<close>

lemma EMAIL_parts:
  assumes "rx_test EMAIL s"
  shows "\<not> (\<exists>m. rx_span temp_word s 0 m)"
    and "\<exists>k. k < length s \<and> rx_span local_part s 0 k \<and> s ! k = CHR ''@''
            \<and> rx_span domain_part s (Suc k) (length s)"
proof -
  from assms obtain i j where ij: "rx_span EMAIL s i j" by (auto simp: rx_test_iff)
  then obtain k where k: "\<not> (\<exists>m. 0 \<le> m \<and> m \<le> length s \<and> rx_span temp_word s 0 m)"
      "rx_span local_part s 0 k" "k < length s" "s ! k = CHR ''@''"
      "rx_span domain_part s (Suc k) (length s)"
    by (auto simp: EMAIL_def rx_span_Seq rx_span_NegLook rx_span_Lit take_drop_single)
  from k(1) rx_span_bounds [of temp_word s 0] show "\<not> (\<exists>m. rx_span temp_word s 0 m)"
    by auto
  from k show "\<exists>k. k < length s \<and> rx_span local_part s 0 k \<and> s ! k = CHR ''@''
            \<and> rx_span domain_part s (Suc k) (length s)" by auto
qed

lemma line_terminator_whitespace: "line_terminator c \<Longrightarrow> js_whitespace c"
  by (auto simp: line_terminator_def js_whitespace_def)

lemma consumes_local_part: "rx_consumes local_part c \<Longrightarrow> \<not> line_terminator c"
  by (auto simp: local_part_def Plus_def atext_def line_terminator_def js_whitespace_def)

lemma consumes_domain_part:
  "rx_consumes domain_part c \<Longrightarrow> \<not> line_terminator c \<and> c \<noteq> CHR ''@''"
  by (auto simp: domain_part_def ip_literal_def dns_name_def Plus_def AtLeast_def Rep_def
      digit_def label_char_def tld_char_def in_range_def line_terminator_def eval_nat_numeral)

lemma EMAIL_no_line_terminator:
  assumes "rx_test EMAIL s" and "p < length s"
  shows "\<not> line_terminator (s ! p)"
proof -
  from EMAIL_parts(2) [OF assms(1)] obtain k where k: "k < length s" "rx_span local_part s 0 k"
    "s ! k = CHR ''@''" "rx_span domain_part s (Suc k) (length s)" by blast
  consider "p < k" | "p = k" | "Suc k \<le> p" by linarith
  then show ?thesis
  proof cases
    case 1
    with rx_span_consumes [OF k(2), of p] consumes_local_part show ?thesis by simp
  next
    case 2
    with k(3) show ?thesis by (simp add: line_terminator_def)
  next
    case 3
    with rx_span_consumes [OF k(4), of p] assms(2) consumes_domain_part show ?thesis by simp
  qed
qed

lemma temp_word_matches:
  assumes tw: "temp_word_at s i" and nl: "\<And>p. p < i \<Longrightarrow> \<not> line_terminator (s ! p)"
  shows "rx_span temp_word s 0 (i + 4)"
proof -
  from tw have t: "take 4 (drop i s) = ''temp''" and b1: "\<not> (0 < i \<and> word_char (s ! (i - 1)))"
    and b2: "\<not> (i + 4 < length s \<and> word_char (s ! (i + 4)))" by (simp_all add: temp_word_at_def)
  from t have "length (take 4 (drop i s)) = 4" by simp
  then have len: "i + 4 \<le> length s" by simp
  have nth: "s ! (i + n) = ''temp'' ! n" if "n < 4" for n
  proof -
    have "take 4 (drop i s) ! n = s ! (i + n)" using that len by simp
    with t show ?thesis by simp
  qed
  from nth [of 0] nth [of 3] have s0: "s ! i = CHR ''t''" and s3: "s ! (i + 3) = CHR ''p''" by simp_all
  have unit: "\<And>a k. rx_span Dot s a k \<Longrightarrow> k = Suc a" by simp
  have dots: "rx_span (Star Dot) s 0 i"
    using rx_span_Star_unit [of Dot s 0 i, OF unit] nl len by simp
  have wt: "word_char (s ! i)" using s0 by (simp add: word_char_def in_range_def)
  have pos: "i + 4 - 1 = i + 3" by simp
  have wp: "word_char (s ! (i + 4 - 1))"
    by (simp only: pos s3) (simp add: word_char_def in_range_def)
  have wb1: "word_boundary s i"
    unfolding word_boundary_def using b1 wt len by auto
  have wb2: "word_boundary s (i + 4)"
    unfolding word_boundary_def using b2 wp by auto
  have l4: "length ''temp'' = 4" by simp
  have lit: "rx_span (Lit ''temp'') s i (i + 4)"
    unfolding rx_span_Lit l4 using t len by simp
  have "rx_span (Seq WordB (Seq (Lit ''temp'') WordB)) s i (i + 4)"
    unfolding rx_span_Seq using wb1 wb2 lit len
    by (intro exI [of _ i] conjI exI [of _ "i + 4"]) simp_all
  with dots show ?thesis
    unfolding temp_word_def rx_span_Seq [of "Star Dot"] by (intro exI [of _ i]) simp
qed

lemma EMAIL_rejects_temp_word:
  assumes "contains_temp_word s"
  shows "\<not> rx_test EMAIL s"
proof
  assume m: "rx_test EMAIL s"
  from assms obtain i where "temp_word_at s i" by (auto simp: contains_temp_word_def list_ex_iff)
  then have "rx_span temp_word s 0 (i + 4)"
  proof (rule temp_word_matches)
    fix p assume "p < i"
    from \<open>temp_word_at s i\<close> have "length (take 4 (drop i s)) = 4" by (simp add: temp_word_at_def)
    with \<open>p < i\<close> have "p < length s" by simp
    with EMAIL_no_line_terminator [OF m] show "\<not> line_terminator (s ! p)" by simp
  qed
  with EMAIL_parts(1) [OF m] show False by blast
qed

lemma EMAIL_needs_at:
  assumes "rx_test EMAIL s"
  shows "CHR ''@'' \<in> set s"
proof -
  from EMAIL_parts(2) [OF assms] obtain k where "k < length s" "s ! k = CHR ''@''" by blast
  then show ?thesis by (metis nth_mem)
qed

lemma domain_of_split:
  assumes "CHR ''@'' \<notin> set b"
  shows "domain_of (a @ CHR ''@'' # b) = b"
proof -
  have "takeWhile (\<lambda>c. c \<noteq> CHR ''@'') (rev b @ CHR ''@'' # rev a) = rev b"
    using assms by (simp add: takeWhile_append)
  then show ?thesis by (simp add: domain_of_def)
qed

lemma domain_part_has_dot:
  assumes "rx_span domain_part s a b"
  shows "\<exists>p. a \<le> p \<and> p < b \<and> s ! p = CHR ''.''"
proof -
  from assms consider "rx_span ip_literal s a b" | "rx_span dns_name s a b"
    by (auto simp: domain_part_def)
  then show ?thesis
  proof cases
    case 1
    then obtain k1 k2 k3 where k: "a \<le> k1" "rx_span (Rep 1 3 digit) s k1 k2"
        "rx_span (Lit ''.'') s k2 k3" "k3 \<le> b"
      unfolding ip_literal_def rx_span_Seq [of "Lit ''[''"] rx_span_Seq [of "Rep 1 3 digit"]
        rx_span_Seq [of "Lit ''.''"]
      by blast
    from rx_span_bounds [OF k(2)] have "k1 \<le> k2" by simp
    moreover from k(3) have "k3 = Suc k2" "s ! k2 = CHR ''.''" by simp_all
    ultimately show ?thesis using k(1,4) by (intro exI [of _ k2]) simp
  next
    case 2
    then obtain k1 k2 where k: "a \<le> k1" "rx_span (Plus label_char) s a k1"
        "rx_span (Lit ''.'') s k1 k2" "k2 \<le> b"
      unfolding dns_name_def Plus_def [of "Seq (Plus label_char) (Lit ''.'')"]
        rx_span_Seq [of "Seq (Seq (Plus label_char) (Lit ''.'')) (Star (Seq (Plus label_char) (Lit ''.'')))"]
        rx_span_Seq [of "Seq (Plus label_char) (Lit ''.'')"]
        rx_span_Seq [of "Plus label_char" "Lit ''.''"]
      by (meson le_trans)
    from k(3) have "k2 = Suc k1" "s ! k1 = CHR ''.''" by simp_all
    then show ?thesis using k(1,4) by (intro exI [of _ k1]) simp
  qed
qed

lemma EMAIL_needs_domain_dot:
  assumes "rx_test EMAIL s"
  shows "CHR ''.'' \<in> set (domain_of s)"
proof -
  from EMAIL_parts(2) [OF assms] obtain k where k: "k < length s" "s ! k = CHR ''@''"
    "rx_span domain_part s (Suc k) (length s)" by blast
  have split: "s = take k s @ CHR ''@'' # drop (Suc k) s"
    using k(1,2) by (metis id_take_nth_drop)
  have noat: "CHR ''@'' \<notin> set (drop (Suc k) s)"
  proof
    assume "CHR ''@'' \<in> set (drop (Suc k) s)"
    then obtain n where n: "n < length (drop (Suc k) s)" "drop (Suc k) s ! n = CHR ''@''"
      by (auto simp: in_set_conv_nth)
    then have "Suc k + n < length s" "s ! (Suc k + n) = CHR ''@''" by simp_all
    with rx_span_consumes [OF k(3), of "Suc k + n"] consumes_domain_part [of "CHR ''@''"]
    show False by simp
  qed
  from domain_part_has_dot [OF k(3)] obtain p where p: "Suc k \<le> p" "p < length s" "s ! p = CHR ''.''"
    by blast
  then have "drop (Suc k) s ! (p - Suc k) = CHR ''.''" "p - Suc k < length (drop (Suc k) s)"
    by simp_all
  then have "CHR ''.'' \<in> set (drop (Suc k) s)" by (metis nth_mem)
  moreover have "domain_of s = drop (Suc k) s"
    using domain_of_split [OF noat, of "take k s"] split by simp
  ultimately show ?thesis by simp
qed

section \<open>Running the rules of a field\<close>

lemma run_rules_member:
  "\<not> abortEarly p \<Longrightarrow> r \<in> set rs \<Longrightarrow> \<not> (is_trim r \<and> convert p) \<Longrightarrow> rule_check r s = Some e
     \<Longrightarrow> e \<in> set (run_rules p rs s)"
  by (induction rs) (auto split: option.splits)

lemma run_rules_nonempty:
  "r \<in> set rs \<Longrightarrow> \<not> (is_trim r \<and> convert p) \<Longrightarrow> rule_check r s = Some e \<Longrightarrow> run_rules p rs s \<noteq> []"
  by (induction rs) (auto split: option.splits)

lemma run_rules_empty:
  "\<forall>r\<in>set rs. (is_trim r \<and> convert p) \<or> rule_check r s = None \<Longrightarrow> run_rules p rs s = []"
  by (induction rs) (auto split: option.splits)

lemma validate_string_rejects:
  assumes "t = (if convert p \<and> list_ex is_trim (rules sch) then js_trim s else s)"
    and "t \<noteq> []"
    and "r \<in> set (rules sch)" and "\<not> (is_trim r \<and> convert p)" and "rule_check r t = Some e"
  shows "\<exists>es. validate_string p sch (JStr s) = Inl es \<and> (\<not> abortEarly p \<longrightarrow> e \<in> set es)"
proof -
  from run_rules_nonempty [OF assms(3,4,5)] obtain x xs where xs: "run_rules p (rules sch) t = x # xs"
    by (cases "run_rules p (rules sch) t") auto
  have "validate_string p sch (JStr s) = Inl (x # xs)"
    using assms(1,2) xs by (simp add: validate_string_def Let_def)
  moreover have "\<not> abortEarly p \<longrightarrow> e \<in> set (x # xs)"
    using run_rules_member [OF _ assms(3,4,5)] xs by auto
  ultimately show ?thesis by blast
qed

lemma validate_string_rejects_each:
  assumes "t = (if convert p \<and> list_ex is_trim (rules sch) then js_trim s else s)"
    and "t \<noteq> []"
    and "r \<in> set (rules sch)" and "\<not> (is_trim r \<and> convert p)" and "rule_check r t = Some e"
  shows "\<exists>es. validate_string p sch (JStr s) = Inl es
           \<and> (\<not> abortEarly p \<longrightarrow>
                (\<forall>r' e'. r' \<in> set (rules sch) \<longrightarrow> \<not> (is_trim r' \<and> convert p)
                    \<longrightarrow> rule_check r' t = Some e' \<longrightarrow> e' \<in> set es))"
proof -
  from run_rules_nonempty [OF assms(3,4,5)] obtain x xs where xs: "run_rules p (rules sch) t = x # xs"
    by (cases "run_rules p (rules sch) t") auto
  have "validate_string p sch (JStr s) = Inl (x # xs)"
    using assms(1,2) xs by (simp add: validate_string_def Let_def)
  moreover have "\<not> abortEarly p \<longrightarrow>
      (\<forall>r' e'. r' \<in> set (rules sch) \<longrightarrow> \<not> (is_trim r' \<and> convert p)
          \<longrightarrow> rule_check r' t = Some e' \<longrightarrow> e' \<in> set (x # xs))"
    using run_rules_member [of p _ "rules sch" t] xs by auto
  ultimately show ?thesis by blast
qed

lemma rules_emailField:
  "rules ((emailField cfg)\<lparr>required := b\<rparr>) =
     [Trim, Min (EMAIL_MIN cfg), Max (EMAIL_MAX cfg), Email (isEmailValid cfg),
      Pattern NO_TEMP_EMAIL (Some ''no-temp-email''), Pattern EMAIL None]"
  by (simp add: emailField_def createStringField_def with_messages_def)

lemma rules_subjectField:
  "rules ((subjectField cfg)\<lparr>required := b\<rparr>) = [Trim, Min (SUBJECT_MIN cfg), Max (SUBJECT_MAX cfg)]"
  by (simp add: subjectField_def createStringField_def with_messages_def)

lemma sublist_dropWhile:
  "sublist t s \<Longrightarrow> t \<noteq> [] \<Longrightarrow> \<not> P (hd t) \<Longrightarrow> sublist t (dropWhile P s)"
proof (induction s)
  case Nil
  then show ?case by simp
next
  case (Cons c s)
  show ?case
  proof (cases "P c")
    case True
    with Cons.prems have "\<not> prefix t (c # s)" by (cases t) auto
    with Cons.prems(1) have "sublist t s" by (simp add: sublist_Cons_right)
    with Cons True show ?thesis by simp
  next
    case False
    with Cons.prems(1) show ?thesis by simp
  qed
qed

lemma sublist_js_trim:
  assumes "sublist t s" "t \<noteq> []" "\<not> js_whitespace (hd t)" "\<not> js_whitespace (last t)"
  shows "sublist t (js_trim s)"
proof -
  from sublist_dropWhile [of t s js_whitespace, OF assms(1,2,3)] have "sublist (rev t) (rev (dropWhile js_whitespace s))"
    by simp
  moreover from assms have "rev t \<noteq> []" "\<not> js_whitespace (hd (rev t))" by (simp_all add: hd_rev)
  ultimately have "sublist (rev t) (dropWhile js_whitespace (rev (dropWhile js_whitespace s)))"
    by (rule sublist_dropWhile)
  then show ?thesis unfolding js_trim_def by (simp add: sublist_rev_right)
qed

lemma providers_survive_trim:
  assumes "sublist ''tempmail'' s \<or> sublist ''mailinator'' s \<or> sublist ''yopmail'' s"
  shows "sublist ''tempmail'' (js_trim s) \<or> sublist ''mailinator'' (js_trim s) \<or> sublist ''yopmail'' (js_trim s)"
  using assms
  by (auto intro!: sublist_js_trim simp: js_whitespace_def)

lemma sublist_nonempty: "sublist t s \<Longrightarrow> t \<noteq> [] \<Longrightarrow> s \<noteq> []"
  by auto

text \<open>
  C5. A string that contains \<open>tempmail\<close>, \<open>mailinator\<close> or \<open>yopmail\<close> anywhere is
  rejected by the email field, whatever else it looks like and under every preference
  (converting or strict, stopping at the first error or collecting); when the errors
  are collected, the error of the pattern named \<open>no-temp-email\<close> is among them.
\<close>

theorem emailField_rejects_temporary_providers:
  assumes "sublist ''tempmail'' s \<or> sublist ''mailinator'' s \<or> sublist ''yopmail'' s"
  shows "\<exists>es. validate_string p ((emailField cfg)\<lparr>required := b\<rparr>) (JStr s) = Inl es
           \<and> (\<not> abortEarly p \<longrightarrow> StringPatternName ''no-temp-email'' \<in> set es)"
proof -
  let ?sch = "(emailField cfg)\<lparr>required := b\<rparr>"
  define t where "t = (if convert p \<and> list_ex is_trim (rules ?sch) then js_trim s else s)"
  have sub: "sublist ''tempmail'' t \<or> sublist ''mailinator'' t \<or> sublist ''yopmail'' t"
    using assms providers_survive_trim [OF assms] by (auto simp: t_def)
  then have ne: "t \<noteq> []" by auto
  from sub have "\<not> rx_test NO_TEMP_EMAIL t" using NO_TEMP_EMAIL_rejects by blast
  then have chk: "rule_check (Pattern NO_TEMP_EMAIL (Some ''no-temp-email'')) t
      = Some (StringPatternName ''no-temp-email'')" by simp
  show ?thesis
    by (rule validate_string_rejects [OF t_def ne _ _ chk]) (simp_all add: rules_emailField)
qed

theorem emailField_rejects_temporary_providers_witness:
  "sublist ''tempmail'' ''user@tempmail.com''
   \<and> (\<exists>es. validate_string collect_all ((emailField stub_settings)\<lparr>required := True\<rparr>)
               (JStr ''user@tempmail.com'') = Inl es
           \<and> StringPatternName ''no-temp-email'' \<in> set es)"
proof -
  have "''user@tempmail.com'' = ''user@'' @ ''tempmail'' @ ''.com''" by simp
  then have h: "sublist ''tempmail'' ''user@tempmail.com''"
    by (simp only: sublist_appendI)
  from emailField_rejects_temporary_providers [where s = "''user@tempmail.com''" and p = collect_all
      and cfg = stub_settings and b = True] h
  show ?thesis by (simp add: collect_all_def)
qed

section \<open>The whole word temp\<close>

lemma temp_word_at_length: "temp_word_at s i \<Longrightarrow> i + 4 \<le> length s"
proof -
  assume "temp_word_at s i"
  then have "length (take 4 (drop i s)) = 4" by (simp add: temp_word_at_def)
  then show ?thesis by simp
qed

lemma temp_word_at_nth:
  assumes "temp_word_at s i" and "n < 4"
  shows "s ! (i + n) = ''temp'' ! n"
proof -
  from assms(1) have t: "take 4 (drop i s) = ''temp''" by (simp add: temp_word_at_def)
  have "take 4 (drop i s) ! n = s ! (i + n)"
    using assms(2) temp_word_at_length [OF assms(1)] by simp
  with t show ?thesis by simp
qed

lemma contains_temp_word_iff: "contains_temp_word s \<longleftrightarrow> (\<exists>i. temp_word_at s i)"
proof
  assume "contains_temp_word s"
  then show "\<exists>i. temp_word_at s i" by (auto simp: contains_temp_word_def list_ex_iff)
next
  assume "\<exists>i. temp_word_at s i"
  then obtain i where i: "temp_word_at s i" by blast
  from temp_word_at_length [OF i] have "i < length s" by simp
  with i show "contains_temp_word s" by (auto simp: contains_temp_word_def list_ex_iff)
qed

lemma temp_word_drop_head:
  assumes "temp_word_at (c # s) i" and "js_whitespace c"
  shows "temp_word_at s (i - 1)"
proof -
  have "i \<noteq> 0"
  proof
    assume "i = 0"
    with temp_word_at_nth [OF assms(1), of 0] have "c = CHR ''t''" by simp
    with assms(2) show False by (simp add: js_whitespace_def)
  qed
  then obtain j where j: "i = Suc j" by (cases i) auto
  from assms(1) show ?thesis
    unfolding temp_word_at_def j by (cases j) auto
qed

lemma temp_word_drop_last:
  assumes "temp_word_at (s @ [c]) i" and "js_whitespace c"
  shows "temp_word_at s i"
proof -
  from temp_word_at_length [OF assms(1)] have le: "i + 4 \<le> Suc (length s)" by simp
  have "i + 4 \<noteq> Suc (length s)"
  proof
    assume e: "i + 4 = Suc (length s)"
    then have "(s @ [c]) ! (i + 3) = c" by (simp add: nth_append)
    with temp_word_at_nth [OF assms(1), of 3] have "c = CHR ''p''" by simp
    with assms(2) show False by (simp add: js_whitespace_def)
  qed
  with le have len: "i + 4 \<le> length s" by simp
  from len have "i - 1 < length s" by arith
  then have prev: "(s @ [c]) ! (i - 1) = s ! (i - 1)" by (simp only: nth_append if_True)
  have nxt: "(s @ [c]) ! (i + 4) = s ! (i + 4)" if "i + 4 < length s"
    using that by (simp add: nth_append)
  have tk: "take 4 (drop i (s @ [c])) = take 4 (drop i s)" using len by simp
  from assms(1) have "take 4 (drop i (s @ [c])) = ''temp''
      \<and> \<not> (0 < i \<and> word_char ((s @ [c]) ! (i - 1)))
      \<and> \<not> (i + 4 < length (s @ [c]) \<and> word_char ((s @ [c]) ! (i + 4)))"
    unfolding temp_word_at_def .
  then show ?thesis
    unfolding temp_word_at_def prev tk using nxt by auto
qed

lemma contains_temp_word_dropWhile:
  "contains_temp_word s \<Longrightarrow> contains_temp_word (dropWhile js_whitespace s)"
proof (induction s)
  case Nil
  then show ?case by simp
next
  case (Cons c s)
  show ?case
  proof (cases "js_whitespace c")
    case True
    from Cons.prems obtain i where "temp_word_at (c # s) i" by (auto simp: contains_temp_word_iff)
    from temp_word_drop_head [OF this True] have "contains_temp_word s"
      by (auto simp: contains_temp_word_iff)
    with Cons.IH True show ?thesis by simp
  next
    case False
    with Cons.prems show ?thesis by simp
  qed
qed

lemma contains_temp_word_chop:
  "contains_temp_word s \<Longrightarrow> contains_temp_word (rev (dropWhile js_whitespace (rev s)))"
proof (induction s rule: rev_induct)
  case Nil
  then show ?case by simp
next
  case (snoc c s)
  show ?case
  proof (cases "js_whitespace c")
    case True
    from snoc.prems obtain i where "temp_word_at (s @ [c]) i" by (auto simp: contains_temp_word_iff)
    from temp_word_drop_last [OF this True] have "contains_temp_word s"
      by (auto simp: contains_temp_word_iff)
    with snoc.IH True show ?thesis by simp
  next
    case False
    with snoc.prems show ?thesis by simp
  qed
qed

lemma contains_temp_word_js_trim: "contains_temp_word s \<Longrightarrow> contains_temp_word (js_trim s)"
  unfolding js_trim_def by (intro contains_temp_word_chop contains_temp_word_dropWhile)

text \<open>
  C10. A string that contains the whole word \<open>temp\<close> (the four letters with no word
  character directly before or after them) does not match the pattern \<open>EMAIL\<close>, whose
  negative lookahead \<open>(?!.*\btemp\b)\<close> excludes it, and the email field rejects it
  under every preference; when the errors are collected, the error of the unnamed
  pattern (\<open>string.pattern.base\<close>) is among them.
\<close>

theorem emailField_rejects_temp_word:
  assumes "contains_temp_word s"
  shows "\<not> rx_test EMAIL s
         \<and> (\<exists>es. validate_string p ((emailField cfg)\<lparr>required := b\<rparr>) (JStr s) = Inl es
               \<and> (\<not> abortEarly p \<longrightarrow> StringPatternBase \<in> set es))"
proof
  show "\<not> rx_test EMAIL s" using assms by (rule EMAIL_rejects_temp_word)
next
  let ?sch = "(emailField cfg)\<lparr>required := b\<rparr>"
  define t where "t = (if convert p \<and> list_ex is_trim (rules ?sch) then js_trim s else s)"
  have tw: "contains_temp_word t"
    using assms contains_temp_word_js_trim [OF assms] by (simp add: t_def)
  then have ne: "t \<noteq> []" by (auto simp: contains_temp_word_def)
  from tw have "\<not> rx_test EMAIL t" by (rule EMAIL_rejects_temp_word)
  then have chk: "rule_check (Pattern EMAIL None) t = Some StringPatternBase" by simp
  show "\<exists>es. validate_string p ?sch (JStr s) = Inl es \<and> (\<not> abortEarly p \<longrightarrow> StringPatternBase \<in> set es)"
    by (rule validate_string_rejects [OF t_def ne _ _ chk]) (simp_all add: rules_emailField)
qed

theorem emailField_rejects_temp_word_witness:
  "contains_temp_word ''user@temp.mail.com''
   \<and> \<not> rx_test EMAIL ''user@temp.mail.com''
   \<and> (\<exists>es. validate_string collect_all ((emailField stub_settings)\<lparr>required := True\<rparr>)
               (JStr ''user@temp.mail.com'') = Inl es
           \<and> StringPatternBase \<in> set es)"
proof -
  have "temp_word_at ''user@temp.mail.com'' 5"
    by (simp add: temp_word_at_def word_char_def in_range_def)
  then have h: "contains_temp_word ''user@temp.mail.com''"
    unfolding contains_temp_word_iff by blast
  from emailField_rejects_temp_word [where s = "''user@temp.mail.com''" and p = collect_all
      and cfg = stub_settings and b = True] h
  show ?thesis by (simp add: collect_all_def)
qed

section \<open>Format violations of the email field\<close>

lemma set_js_trim: "set (js_trim s) \<subseteq> set s"
proof -
  have "set (js_trim s) = set (dropWhile js_whitespace (rev (dropWhile js_whitespace s)))"
    by (simp add: js_trim_def)
  also have "\<dots> \<subseteq> set (rev (dropWhile js_whitespace s))" by (auto dest: set_dropWhileD)
  also have "\<dots> \<subseteq> set s" by (auto dest: set_dropWhileD)
  finally show ?thesis .
qed

lemma takeWhile_dropWhile_subset:
  assumes "\<And>x. P x \<Longrightarrow> Q x"
  shows "set (takeWhile Q (dropWhile P xs)) \<subseteq> set (takeWhile Q xs)"
  using assms by (induction xs) auto

lemma takeWhile_prefix_subset: "set (takeWhile Q xs) \<subseteq> set (takeWhile Q (xs @ ys))"
  by (induction xs) auto

lemma domain_of_js_trim: "set (domain_of (js_trim s)) \<subseteq> set (domain_of s)"
proof -
  let ?Q = "\<lambda>c. c \<noteq> CHR ''@''"
  let ?u = "dropWhile js_whitespace s"
  have ws: "\<And>x. js_whitespace x \<Longrightarrow> ?Q x" by (auto simp: js_whitespace_def)
  have "rev s = rev ?u @ rev (takeWhile js_whitespace s)"
    by (metis rev_append takeWhile_dropWhile_id)
  then have "set (takeWhile ?Q (rev ?u)) \<subseteq> set (takeWhile ?Q (rev s))"
    using takeWhile_prefix_subset [of ?Q "rev ?u" "rev (takeWhile js_whitespace s)"] by simp
  moreover have "set (takeWhile ?Q (dropWhile js_whitespace (rev ?u))) \<subseteq> set (takeWhile ?Q (rev ?u))"
    using ws by (rule takeWhile_dropWhile_subset)
  ultimately show ?thesis by (auto simp: domain_of_def js_trim_def)
qed

lemma messages_emailField:
  "error_message ((emailField cfg)\<lparr>required := b\<rparr>) StringPatternBase
     = Some ''Please fill a valid email address.''"
  by (simp add: error_message_def emailField_def with_messages_def)

lemma validate_string_empty:
  assumes "(if convert p \<and> list_ex is_trim (rules sch) then js_trim s else s) = []"
    and "\<not> list_ex is_min0 (rules sch)"
  shows "validate_string p sch (JStr s) = Inl [StringEmpty]"
  using assms by (simp add: validate_string_def Let_def)

text \<open>
  C7, amended. Let \<open>t\<close> be the string as the email field validates it (trimmed when
  the validation converts). When \<open>t\<close> is not empty and the string has no \<open>@\<close>, or
  its domain has no dot, or the address check of the library refuses it, the field
  rejects it under every preference; when the errors are collected they hold a format
  violation: \<open>string.email\<close> if the address check refuses it, and
  \<open>string.pattern.base\<close>, reported as "Please fill a valid email address.", if the
  \<open>@\<close> or the dot of the domain is missing. When \<open>t\<close> is empty and \<open>EMAIL_MIN\<close> is
  positive, the only error is \<open>string.empty\<close>.
\<close>

theorem emailField_rejects_invalid_syntax:
  assumes "t = (if convert p then js_trim s else s)"
  shows "(t \<noteq> []
           \<and> (CHR ''@'' \<notin> set s \<or> CHR ''.'' \<notin> set (domain_of s) \<or> \<not> isEmailValid cfg t)
          \<longrightarrow> (\<exists>es. validate_string p ((emailField cfg)\<lparr>required := b\<rparr>) (JStr s) = Inl es
                 \<and> (\<not> abortEarly p \<longrightarrow>
                      (\<not> isEmailValid cfg t \<longrightarrow> StringEmail \<in> set es)
                      \<and> (CHR ''@'' \<notin> set s \<or> CHR ''.'' \<notin> set (domain_of s)
                           \<longrightarrow> StringPatternBase \<in> set es))
                 \<and> error_message ((emailField cfg)\<lparr>required := b\<rparr>) StringPatternBase
                     = Some ''Please fill a valid email address.''))
       \<and> (t = [] \<and> 0 < EMAIL_MIN cfg
          \<longrightarrow> validate_string p ((emailField cfg)\<lparr>required := b\<rparr>) (JStr s) = Inl [StringEmpty])"
proof (intro conjI impI)
  let ?sch = "(emailField cfg)\<lparr>required := b\<rparr>"
  have t': "t = (if convert p \<and> list_ex is_trim (rules ?sch) then js_trim s else s)"
    using assms by (simp add: rules_emailField)
  {
    assume a: "t \<noteq> []
       \<and> (CHR ''@'' \<notin> set s \<or> CHR ''.'' \<notin> set (domain_of s) \<or> \<not> isEmailValid cfg t)"
    then have ne: "t \<noteq> []" by simp
    have sub: "set t \<subseteq> set s" "set (domain_of t) \<subseteq> set (domain_of s)"
      using assms set_js_trim [of s] domain_of_js_trim [of s] by (auto split: if_splits)
    have adr: "rule_check (Email (isEmailValid cfg)) t = Some StringEmail"
      if "\<not> isEmailValid cfg t" using that by simp
    have pat: "rule_check (Pattern EMAIL None) t = Some StringPatternBase"
      if "CHR ''@'' \<notin> set s \<or> CHR ''.'' \<notin> set (domain_of s)"
    proof -
      from that sub have "CHR ''@'' \<notin> set t \<or> CHR ''.'' \<notin> set (domain_of t)" by blast
      then have "\<not> rx_test EMAIL t"
        using EMAIL_needs_at [of t] EMAIL_needs_domain_dot [of t] by blast
      then show ?thesis by simp
    qed
    have mem: "Email (isEmailValid cfg) \<in> set (rules ?sch)" "Pattern EMAIL None \<in> set (rules ?sch)"
      "\<not> (is_trim (Email (isEmailValid cfg)) \<and> convert p)" "\<not> (is_trim (Pattern EMAIL None) \<and> convert p)"
      by (simp_all add: rules_emailField)
    from a adr pat mem obtain r e where r: "r \<in> set (rules ?sch)" "\<not> (is_trim r \<and> convert p)"
        "rule_check r t = Some e" by blast
    from validate_string_rejects_each [OF t' ne r] obtain es
      where es: "validate_string p ?sch (JStr s) = Inl es"
        and each: "\<not> abortEarly p \<longrightarrow>
          (\<forall>r' e'. r' \<in> set (rules ?sch) \<longrightarrow> \<not> (is_trim r' \<and> convert p)
              \<longrightarrow> rule_check r' t = Some e' \<longrightarrow> e' \<in> set es)" by blast
    have "\<not> abortEarly p \<longrightarrow>
        (\<not> isEmailValid cfg t \<longrightarrow> StringEmail \<in> set es)
        \<and> (CHR ''@'' \<notin> set s \<or> CHR ''.'' \<notin> set (domain_of s) \<longrightarrow> StringPatternBase \<in> set es)"
      using each adr pat mem by blast
    with es show "\<exists>es. validate_string p ?sch (JStr s) = Inl es
        \<and> (\<not> abortEarly p \<longrightarrow>
             (\<not> isEmailValid cfg t \<longrightarrow> StringEmail \<in> set es)
             \<and> (CHR ''@'' \<notin> set s \<or> CHR ''.'' \<notin> set (domain_of s) \<longrightarrow> StringPatternBase \<in> set es))
        \<and> error_message ?sch StringPatternBase = Some ''Please fill a valid email address.''"
      using messages_emailField [where cfg = cfg and b = b] by blast
  }
  {
    assume "t = [] \<and> 0 < EMAIL_MIN cfg"
    then show "validate_string p ?sch (JStr s) = Inl [StringEmpty]"
      using t' by (intro validate_string_empty) (simp_all add: rules_emailField)
  }
qed

theorem emailField_rejects_invalid_syntax_witness:
  "CHR ''@'' \<notin> set ''not-an-email''
   \<and> (\<exists>es. validate_string strict_collect ((emailField stub_settings)\<lparr>required := True\<rparr>)
               (JStr ''not-an-email'') = Inl es
           \<and> StringEmail \<in> set es \<and> StringPatternBase \<in> set es)
   \<and> (\<exists>es. validate_string joi_defaults ((emailField stub_settings)\<lparr>required := True\<rparr>)
               (JStr ''not-an-email'') = Inl es)
   \<and> validate_string collect_all ((emailField stub_settings)\<lparr>required := True\<rparr>) (JStr ''  '')
       = Inl [StringEmpty]"
proof -
  have h: "CHR ''@'' \<notin> set ''not-an-email''" by simp
  have tr: "js_trim ''not-an-email'' = ''not-an-email''"
    by (simp add: js_trim_def js_whitespace_def)
  from emailField_rejects_invalid_syntax [where s = "''not-an-email''" and t = "''not-an-email''"
      and p = strict_collect and cfg = stub_settings and b = True] h
  have A: "\<exists>es. validate_string strict_collect ((emailField stub_settings)\<lparr>required := True\<rparr>)
               (JStr ''not-an-email'') = Inl es
           \<and> StringEmail \<in> set es \<and> StringPatternBase \<in> set es"
    by (auto simp: strict_collect_def stub_settings_def)
  from emailField_rejects_invalid_syntax [where s = "''not-an-email''" and t = "''not-an-email''"
      and p = joi_defaults and cfg = stub_settings and b = True] h tr
  have A': "\<exists>es. validate_string joi_defaults ((emailField stub_settings)\<lparr>required := True\<rparr>)
               (JStr ''not-an-email'') = Inl es"
    by (auto simp: joi_defaults_def)
  from emailField_rejects_invalid_syntax [where s = "''  ''" and t = "[]"
      and p = collect_all and cfg = stub_settings and b = True]
  have B: "validate_string collect_all ((emailField stub_settings)\<lparr>required := True\<rparr>) (JStr ''  '')
       = Inl [StringEmpty]"
    by (simp add: collect_all_def stub_settings_def js_trim_def js_whitespace_def)
  from h A A' B show ?thesis by blast
qed

theorem emailField_empty_counterexample:
  "CHR ''@'' \<notin> set ''''
   \<and> validate_string strict_collect ((emailField stub_settings)\<lparr>required := True\<rparr>) (JStr '''')
       = Inl [StringEmpty]"
  by (simp add: validate_string_def strict_collect_def rules_emailField stub_settings_def)

section \<open>Length bounds of the subject field\<close>

lemma in_range_not_whitespace:
  "in_range CHR ''A'' CHR ''Z'' c \<or> in_range CHR ''a'' CHR ''z'' c \<Longrightarrow> \<not> js_whitespace c"
  by (auto simp: in_range_def js_whitespace_def)

lemma capitalized_ends:
  "(capitalized_words s \<longrightarrow> s \<noteq> [] \<and> \<not> js_whitespace (hd s) \<and> \<not> js_whitespace (last s))"
  "(capitalized_rest s \<longrightarrow> s = [] \<or> \<not> js_whitespace (last s))"
proof (induction s rule: capitalized_words_capitalized_rest.induct)
  case 1
  then show ?case by simp
next
  case (2 c cs)
  then show ?case using in_range_not_whitespace [of c] by auto
next
  case 3
  then show ?case by simp
next
  case (4 c cs)
  then show ?case using in_range_not_whitespace [of c] by auto
qed

lemma js_trim_id:
  assumes "s \<noteq> []" "\<not> js_whitespace (hd s)" "\<not> js_whitespace (last s)"
  shows "js_trim s = s"
proof -
  from assms have "dropWhile js_whitespace s = s" by (simp add: dropWhile_eq_self_iff)
  moreover from assms have "dropWhile js_whitespace (rev s) = rev s"
    by (simp add: dropWhile_eq_self_iff hd_rev)
  ultimately show ?thesis by (simp add: js_trim_def)
qed

lemma capitalized_words_trimmed: "capitalized_words s \<Longrightarrow> js_trim s = s \<and> s \<noteq> []"
  using capitalized_ends(1) [of s] js_trim_id [of s] by blast

lemma validate_string_accepts:
  assumes "t = (if convert p \<and> list_ex is_trim (rules sch) then js_trim s else s)"
    and "t \<noteq> []"
    and "\<forall>r\<in>set (rules sch). (is_trim r \<and> convert p) \<or> rule_check r t = None"
  shows "validate_string p sch (JStr s) = Inr (JStr t)"
  using assms(1,2) run_rules_empty [OF assms(3)]
  by (simp add: validate_string_def Let_def)

text \<open>
  C6, amended. Let \<open>t\<close> be the subject as the field validates it (trimmed when the
  validation converts; the subject itself under \<open>.strict()\<close>, as the request schema
  runs it). A subject of capitalized words whose trimmed length is within
  \<open>[SUBJECT_MIN, SUBJECT_MAX]\<close> is accepted. A non-empty \<open>t\<close> shorter than
  \<open>SUBJECT_MIN\<close> and a \<open>t\<close> longer than \<open>SUBJECT_MAX\<close> are rejected under every
  preference; when the errors are collected, \<open>string.min\<close> is among them for the
  first and \<open>string.max\<close> for the second. An empty \<open>t\<close> is rejected with
  \<open>string.empty\<close> alone when \<open>SUBJECT_MIN\<close> is positive.
\<close>

theorem subjectField_validation:
  assumes "t = (if convert p then js_trim s else s)"
  shows "(capitalized_words s \<and> SUBJECT_MIN cfg \<le> length (js_trim s) \<and> length (js_trim s) \<le> SUBJECT_MAX cfg
          \<longrightarrow> validate_string p ((subjectField cfg)\<lparr>required := b\<rparr>) (JStr s) = Inr (JStr s))
       \<and> (t \<noteq> [] \<and> length t < SUBJECT_MIN cfg
          \<longrightarrow> (\<exists>es. validate_string p ((subjectField cfg)\<lparr>required := b\<rparr>) (JStr s) = Inl es
                 \<and> (\<not> abortEarly p \<longrightarrow> StringMin (SUBJECT_MIN cfg) \<in> set es)))
       \<and> (SUBJECT_MAX cfg < length t
          \<longrightarrow> (\<exists>es. validate_string p ((subjectField cfg)\<lparr>required := b\<rparr>) (JStr s) = Inl es
                 \<and> (\<not> abortEarly p \<longrightarrow> StringMax (SUBJECT_MAX cfg) \<in> set es)))
       \<and> (t = [] \<and> 0 < SUBJECT_MIN cfg
          \<longrightarrow> validate_string p ((subjectField cfg)\<lparr>required := b\<rparr>) (JStr s) = Inl [StringEmpty])"
proof (intro conjI impI)
  let ?sch = "(subjectField cfg)\<lparr>required := b\<rparr>"
  have t': "t = (if convert p \<and> list_ex is_trim (rules ?sch) then js_trim s else s)"
    using assms by (simp add: rules_subjectField)
  {
    assume a: "capitalized_words s \<and> SUBJECT_MIN cfg \<le> length (js_trim s) \<and> length (js_trim s) \<le> SUBJECT_MAX cfg"
    with capitalized_words_trimmed [of s] have ts: "t = s" "s \<noteq> []" "js_trim s = s"
      using assms by auto
    have "validate_string p ?sch (JStr s) = Inr (JStr t)"
      using a ts by (intro validate_string_accepts [OF t']) (auto simp: rules_subjectField)
    with ts show "validate_string p ?sch (JStr s) = Inr (JStr s)" by simp
  }
  {
    assume a: "t \<noteq> [] \<and> length t < SUBJECT_MIN cfg"
    then have chk: "rule_check (Min (SUBJECT_MIN cfg)) t = Some (StringMin (SUBJECT_MIN cfg))" by simp
    show "\<exists>es. validate_string p ?sch (JStr s) = Inl es
        \<and> (\<not> abortEarly p \<longrightarrow> StringMin (SUBJECT_MIN cfg) \<in> set es)"
      using a by (intro validate_string_rejects [OF t' _ _ _ chk]) (simp_all add: rules_subjectField)
  }
  {
    assume a: "SUBJECT_MAX cfg < length t"
    then have chk: "rule_check (Max (SUBJECT_MAX cfg)) t = Some (StringMax (SUBJECT_MAX cfg))" by simp
    from a have ne: "t \<noteq> []" by auto
    show "\<exists>es. validate_string p ?sch (JStr s) = Inl es
        \<and> (\<not> abortEarly p \<longrightarrow> StringMax (SUBJECT_MAX cfg) \<in> set es)"
      by (intro validate_string_rejects [OF t' ne _ _ chk]) (simp_all add: rules_subjectField)
  }
  {
    assume "t = [] \<and> 0 < SUBJECT_MIN cfg"
    then show "validate_string p ?sch (JStr s) = Inl [StringEmpty]"
      using t' by (intro validate_string_empty) (simp_all add: rules_subjectField)
  }
qed

theorem subjectField_validation_witness:
  "capitalized_words ''Weekly Update''
   \<and> validate_string strict_collect ((subjectField stub_settings)\<lparr>required := True\<rparr>) (JStr ''Weekly Update'')
       = Inr (JStr ''Weekly Update'')
   \<and> (\<exists>es. validate_string strict_collect ((subjectField stub_settings)\<lparr>required := True\<rparr>) (JStr ''Hi'')
             = Inl es \<and> StringMin 3 \<in> set es)
   \<and> (\<exists>es. validate_string joi_defaults ((subjectField stub_settings)\<lparr>required := True\<rparr>) (JStr ''Hi'')
             = Inl es)
   \<and> validate_string strict_collect ((subjectField stub_settings)\<lparr>required := True\<rparr>) (JStr '''')
       = Inl [StringEmpty]"
proof -
  have h: "capitalized_words ''Weekly Update''" by (simp add: in_range_def)
  have tr: "js_trim ''Weekly Update'' = ''Weekly Update''"
    using capitalized_words_trimmed [OF h] by simp
  have tr2: "js_trim ''Hi'' = ''Hi''" by (simp add: js_trim_def js_whitespace_def)
  from subjectField_validation [where s = "''Weekly Update''" and t = "''Weekly Update''"
      and p = strict_collect and cfg = stub_settings and b = True] h tr
  have A: "validate_string strict_collect ((subjectField stub_settings)\<lparr>required := True\<rparr>)
      (JStr ''Weekly Update'') = Inr (JStr ''Weekly Update'')"
    by (simp add: strict_collect_def stub_settings_def in_range_def)
  from subjectField_validation [where s = "''Hi''" and t = "''Hi''"
      and p = strict_collect and cfg = stub_settings and b = True]
  have B: "\<exists>es. validate_string strict_collect ((subjectField stub_settings)\<lparr>required := True\<rparr>) (JStr ''Hi'')
             = Inl es \<and> StringMin 3 \<in> set es"
    by (simp add: strict_collect_def stub_settings_def)
  from subjectField_validation [where s = "''Hi''" and t = "''Hi''"
      and p = joi_defaults and cfg = stub_settings and b = True] tr2
  have B': "\<exists>es. validate_string joi_defaults ((subjectField stub_settings)\<lparr>required := True\<rparr>) (JStr ''Hi'')
             = Inl es"
    by (auto simp: joi_defaults_def stub_settings_def)
  from subjectField_validation [where s = "''''" and t = "''''"
      and p = strict_collect and cfg = stub_settings and b = True]
  have C: "validate_string strict_collect ((subjectField stub_settings)\<lparr>required := True\<rparr>) (JStr '''')
       = Inl [StringEmpty]"
    by (simp add: strict_collect_def stub_settings_def)
  from h A B B' C show ?thesis by blast
qed

theorem subjectField_empty_counterexample:
  "length '''' < SUBJECT_MIN stub_settings
   \<and> validate_string strict_collect ((subjectField stub_settings)\<lparr>required := True\<rparr>) (JStr '''')
       = Inl [StringEmpty]"
  by (simp add: validate_string_def strict_collect_def rules_subjectField stub_settings_def)

section \<open>Unknown fields of the request\<close>

lemma keys_sendEmailSchema:
  "map fst (keys (sendEmailSchema cfg)) = [''subject'', ''email'']"
  by (simp add: sendEmailSchema_def sendEmailSchemaBase_def fork_def)

lemma unknown_keys_member:
  assumes "(k, v) \<in> set obj" "k \<noteq> ''subject''" "k \<noteq> ''email''" "k \<noteq> ''__proto__''"
  shows "k \<in> set (unknown_keys (sendEmailSchema cfg) (clone_own obj))"
proof -
  from assms(1,4) have "(k, v) \<in> set (clone_own obj)" by (simp add: clone_own_def)
  then have "k \<in> set (map fst (clone_own obj))" by force
  with assms(2,3) show ?thesis by (simp add: unknown_keys_def keys_sendEmailSchema)
qed

lemma subject_weekly_valid:
  "validate_string \<lparr>convert = False, abortEarly = False\<rparr> ((subjectField stub_settings)\<lparr>required := True\<rparr>)
     (JStr ''Weekly Update'') = Inr (JStr ''Weekly Update'')"
  by (rule validate_string_accepts)
     (simp_all add: rules_subjectField stub_settings_def js_trim_def js_whitespace_def)

lemma email_short_matches:
  "rx_test NO_TEMP_EMAIL ''a@b.co''" "rx_test EMAIL ''a@b.co''"
  by code_simp+

lemma email_short_valid:
  "validate_string \<lparr>convert = False, abortEarly = False\<rparr> ((emailField stub_settings)\<lparr>required := True\<rparr>)
     (JStr ''a@b.co'') = Inr (JStr ''a@b.co'')"
  by (rule validate_string_accepts)
     (simp_all add: rules_emailField email_short_matches stub_settings_def js_trim_def js_whitespace_def)

text \<open>
  C8, amended. A request body that holds an own field other than \<open>subject\<close>,
  \<open>email\<close> and \<open>__proto__\<close> is rejected by the request schema under every
  preference; when the errors are collected, \<open>object.unknown\<close> for that field is among
  them. A field named \<open>__proto__\<close> is not an own key of the clone that is validated
  and is not reported.
\<close>

theorem sendEmailSchema_rejects_unknown_fields:
  assumes "(k, v) \<in> set obj" and "k \<noteq> ''subject''" and "k \<noteq> ''email''" and "k \<noteq> ''__proto__''"
  shows "\<exists>es. validate_object p (sendEmailSchema cfg) (JObj obj) = Inl es
           \<and> (\<not> abortEarly p \<longrightarrow> (k, ObjectUnknown k) \<in> set es)"
proof -
  let ?sch = "sendEmailSchema cfg"
  let ?p = "if strict ?sch then p\<lparr>convert := False\<rparr> else p"
  let ?own = "clone_own obj"
  obtain es vs where kv: "validate_keys ?p (keys ?sch) (?own @ clone_inherited obj) = (es, vs)"
    by (cases "validate_keys ?p (keys ?sch) (?own @ clone_inherited obj)")
  let ?us = "map (\<lambda>k. (k, ObjectUnknown k)) (unknown_keys ?sch ?own)"
  from unknown_keys_member [OF assms] have mem: "(k, ObjectUnknown k) \<in> set ?us" by auto
  then have ne: "?us \<noteq> []" by auto
  have ab: "abortEarly ?p = abortEarly p" by simp
  show ?thesis
  proof (cases "abortEarly p")
    case True
    then show ?thesis
      using kv ne ab by (auto simp: validate_object_def Let_def simp del: take_Suc_Cons)
  next
    case False
    then have "validate_object p ?sch (JObj obj) = Inl (es @ ?us)"
      using kv ne ab by (simp add: validate_object_def Let_def)
    with mem False show ?thesis by auto
  qed
qed

theorem sendEmailSchema_rejects_unknown_fields_witness:
  "\<exists>es. validate_object collect_all (sendEmailSchema stub_settings)
          (JObj [(''subject'', JStr ''Weekly Update''), (''email'', JStr ''user@example.com''),
                 (''extra'', JNum 1)]) = Inl es
        \<and> (''extra'', ObjectUnknown ''extra'') \<in> set es"
  using sendEmailSchema_rejects_unknown_fields [where k = "''extra''" and v = "JNum 1"
      and obj = "[(''subject'', JStr ''Weekly Update''), (''email'', JStr ''user@example.com''), (''extra'', JNum 1)]"
      and p = collect_all and cfg = stub_settings]
  by (simp add: collect_all_def)

theorem sendEmailSchema_proto_counterexample:
  "validate_object collect_all (sendEmailSchema stub_settings)
     (JObj [(''__proto__'', JNum 1), (''subject'', JStr ''Weekly Update''),
            (''email'', JStr ''a@b.co'')])
   = Inr (JObj [(''subject'', JStr ''Weekly Update''), (''email'', JStr ''a@b.co'')])"
  by (simp add: validate_object_def sendEmailSchema_def sendEmailSchemaBase_def fork_def
      clone_own_def clone_inherited_def unknown_keys_def set_prop_def collect_all_def
      subject_weekly_valid email_short_valid)

section \<open>The controller and the route\<close>

lemma sendEmail_stub_ok_weekly:
  "sendEmail stub_ok weekly world0 =
     (Inr \<lparr>status = 201, message = JStr ''Email send successfully.'', route = None,
           data = Some (JObj [(''accepted'', JArr [JStr ''user@example.com''])])\<rparr>,
      \<lparr>log = [], outbox = [(JStr ''user@example.com'', JStr ''Weekly Update'', JStr ''<html></html>'')]\<rparr>)"
  by (simp add: sendEmail_def sendEmail_try_def destructure_content_def stub_ok_def stub_content_def
      sendResponse_def CREATED_def weekly_def world0_def)


text \<open>
  C9. When the use case has returned an envelope, the controller sends that envelope
  with its \<open>route\<close> set to the original URL of the request and nothing else changed:
  status, message and data are those of the use case, and the HTTP status code is the
  envelope's status.
\<close>

theorem controller_sets_route_only:
  assumes "sendEmail d (body req) w = (Inr env, w')"
  shows "sendEmailController d req w
           = (Respond \<lparr>code = status env, sent = env\<lparr>route := Some (originalUrl req)\<rparr>\<rparr>, w')"
  using assms by (simp add: sendEmailController_def Let_def)

theorem controller_sets_route_only_witness:
  "sendEmailController stub_ok \<lparr>body = weekly, originalUrl = ''/send-email''\<rparr> world0
     = (Respond \<lparr>code = 201,
                 sent = \<lparr>status = 201, message = JStr ''Email send successfully.'',
                         route = Some ''/send-email'',
                         data = Some (JObj [(''accepted'', JArr [JStr ''user@example.com''])])\<rparr>\<rparr>,
        \<lparr>log = [], outbox = [(JStr ''user@example.com'', JStr ''Weekly Update'', JStr ''<html></html>'')]\<rparr>)"
  using controller_sets_route_only [where d = stub_ok
      and req = "\<lparr>body = weekly, originalUrl = ''/send-email''\<rparr>" and w = world0]
    sendEmail_stub_ok_weekly
  by simp




end
